theory Spec2Isabelle
  imports Complex_Main "HOL-Library.Multiset"
begin

section \<open>Numbers of the host language\<close>

text \<open>
  The dashboard computes with the host's \<^verbatim>\<open>number\<close> type: IEEE-754 binary64 with the
  special values \<^verbatim>\<open>Infinity\<close>, \<^verbatim>\<open>-Infinity\<close> and \<^verbatim>\<open>NaN\<close>. A finite number is modelled by
  the real it denotes, and every arithmetic operation rounds its exact result to the nearest
  double, ties to even (\<open>to_double\<close>). Negative zero is identified with zero: the program
  never divides by a zero whose sign could matter, and \<^verbatim>\<open>-0 === 0\<close> holds in the host.
\<close>

datatype jsnum = Fin real | PInf | NInf | NaN

function bit_length :: "int \<Rightarrow> int" where
  "bit_length k = (if k \<le> 0 then 0 else 1 + bit_length (k div 2))"
  by pat_completeness auto
termination
  by (relation "measure nat") auto

declare bit_length.simps [simp del]

definition pow2 :: "int \<Rightarrow> real" where
  "pow2 e = (if 0 \<le> e then 2 ^ nat e else 1 / 2 ^ nat (- e))"

text \<open>The exponent \<open>e\<close> with \<open>2\<^sup>e \<le> |x| < 2\<^sup>e\<^sup>+\<^sup>1\<close>, for \<open>x \<noteq> 0\<close>.\<close>

definition binade :: "real \<Rightarrow> int" where
  "binade x = (if 1 \<le> \<bar>x\<bar> then bit_length \<lfloor>\<bar>x\<bar>\<rfloor> - 1
               else - bit_length (\<lceil>1 / \<bar>x\<bar>\<rceil> - 1))"

definition round_ties_even :: "real \<Rightarrow> int" where
  "round_ties_even y = (let f = \<lfloor>y\<rfloor>; r = y - of_int f
     in if r < 1 / 2 then f else if 1 / 2 < r then f + 1 else if even f then f else f + 1)"

text \<open>
  Rounding to binary64: 53 significant bits, exponents from \<open>-1022\<close> (below that the
  spacing stays \<open>2\<^sup>-\<^sup>1\<^sup>0\<^sup>7\<^sup>4\<close>, the subnormal numbers), overflow to an infinity.
\<close>

definition to_double :: "real \<Rightarrow> jsnum" where
  "to_double x = (if x = 0 then Fin 0 else
     (let q = pow2 (max (binade x) (- 1022) - 52);
          r = q * of_int (round_ties_even (x / q))
      in if 2 ^ 1024 \<le> \<bar>r\<bar> then (if 0 < x then PInf else NInf) else Fin r))"

definition isNaN :: "jsnum \<Rightarrow> bool" where
  "isNaN x = (x = NaN)"


definition jsign :: "jsnum \<Rightarrow> int" where
  "jsign x = (case x of Fin a \<Rightarrow> (if a < 0 then - 1 else if a = 0 then 0 else 1)
                      | PInf \<Rightarrow> 1 | NInf \<Rightarrow> - 1 | NaN \<Rightarrow> 0)"

definition inf_of_sign :: "int \<Rightarrow> jsnum" where
  "inf_of_sign k = (if k = 0 then NaN else if 0 < k then PInf else NInf)"

definition jneg :: "jsnum \<Rightarrow> jsnum" where
  "jneg x = (case x of Fin a \<Rightarrow> Fin (- a) | PInf \<Rightarrow> NInf | NInf \<Rightarrow> PInf | NaN \<Rightarrow> NaN)"

text \<open>The host's \<^verbatim>\<open>x + y\<close>.\<close>

fun jadd :: "jsnum \<Rightarrow> jsnum \<Rightarrow> jsnum" where
  "jadd (Fin a) (Fin b) = to_double (a + b)"
| "jadd NaN y = NaN"
| "jadd x NaN = NaN"
| "jadd PInf NInf = NaN"
| "jadd NInf PInf = NaN"
| "jadd PInf y = PInf"
| "jadd x PInf = PInf"
| "jadd NInf y = NInf"
| "jadd x NInf = NInf"

definition jsub :: "jsnum \<Rightarrow> jsnum \<Rightarrow> jsnum" where
  "jsub x y = jadd x (jneg y)"

text \<open>The host's \<^verbatim>\<open>x * y\<close>: an infinity times zero is \<^verbatim>\<open>NaN\<close>.\<close>

definition jmul :: "jsnum \<Rightarrow> jsnum \<Rightarrow> jsnum" where
  "jmul x y = (case (x, y) of
       (Fin a, Fin b) \<Rightarrow> to_double (a * b)
     | _ \<Rightarrow> if x = NaN \<or> y = NaN then NaN else inf_of_sign (jsign x * jsign y))"

text \<open>
  The host's \<^verbatim>\<open>x / y\<close>. Dividing by zero raises nothing: it gives an infinity with the
  sign of the dividend, and \<^verbatim>\<open>0 / 0\<close> is \<^verbatim>\<open>NaN\<close>.
\<close>

definition jdiv :: "jsnum \<Rightarrow> jsnum \<Rightarrow> jsnum" where
  "jdiv x y = (if x = NaN \<or> y = NaN then NaN else
     (case (x, y) of
        (Fin a, Fin b) \<Rightarrow> if b = 0 then inf_of_sign (jsign x) else to_double (a / b)
      | (Fin a, _) \<Rightarrow> Fin 0
      | (_, Fin b) \<Rightarrow> inf_of_sign (jsign x * (if b < 0 then - 1 else 1))
      | _ \<Rightarrow> NaN))"

text \<open>The host's \<^verbatim>\<open>x <= y\<close> and \<^verbatim>\<open>x < y\<close>: false as soon as one side is \<^verbatim>\<open>NaN\<close>.\<close>

fun jle :: "jsnum \<Rightarrow> jsnum \<Rightarrow> bool" where
  "jle (Fin a) (Fin b) = (a \<le> b)"
| "jle NaN y = False"
| "jle x NaN = False"
| "jle NInf y = True"
| "jle x PInf = True"
| "jle PInf y = False"
| "jle x NInf = False"

definition jlt :: "jsnum \<Rightarrow> jsnum \<Rightarrow> bool" where
  "jlt x y = (jle x y \<and> x \<noteq> y)"

definition Math_min :: "jsnum \<Rightarrow> jsnum \<Rightarrow> jsnum" where
  "Math_min x y = (if x = NaN \<or> y = NaN then NaN else if jle x y then x else y)"

definition Math_max :: "jsnum \<Rightarrow> jsnum \<Rightarrow> jsnum" where
  "Math_max x y = (if x = NaN \<or> y = NaN then NaN else if jle x y then y else x)"

text \<open>
  \<^verbatim>\<open>Number(x.toFixed(2))\<close>. \<^verbatim>\<open>toFixed\<close> prints a non-finite number by name and a number of
  magnitude \<open>10\<^sup>2\<^sup>1\<close> or more in full, so both come back unchanged; otherwise it picks the
  integer \<open>n\<close> with \<open>n / 100\<close> closest to \<open>|x|\<close>, the larger one on a tie, and \<^verbatim>\<open>Number\<close> reads
  the printed decimal back as the nearest double.
\<close>

definition Number_toFixed2 :: "jsnum \<Rightarrow> jsnum" where
  "Number_toFixed2 x = (case x of
       Fin v \<Rightarrow> if 10 ^ 21 \<le> \<bar>v\<bar> then Fin v
                else (let n = \<lfloor>\<bar>v\<bar> * 100 + 1 / 2\<rfloor>
                      in to_double ((if v < 0 then - 1 else 1) * of_int n / 100))
     | _ \<Rightarrow> x)"

section \<open>Texts\<close>

text \<open>
  A text of the host is a list of UTF-16 code units. \<open>str\<close> gives the text of a literal
  made of ASCII characters.
\<close>

type_synonym jstring = "nat list"

definition str :: "string \<Rightarrow> jstring" where
  "str s = map of_char s"

text \<open>
  The code units that \<^verbatim>\<open>trim\<close> removes: the white space and line terminators of the host
  (tab, line feed, vertical tab, form feed, carriage return, space, no-break space,
  U+1680, U+2000 to U+200A, U+2028, U+2029, U+202F, U+205F, U+3000, U+FEFF).
\<close>

definition is_space :: "nat \<Rightarrow> bool" where
  "is_space c =
     (c \<in> {9, 10, 11, 12, 13, 32, 160, 5760, 8232, 8233, 8239, 8287, 12288, 65279}
      \<or> (8192 \<le> c \<and> c \<le> 8202))"

definition trim :: "jstring \<Rightarrow> jstring" where
  "trim s = rev (dropWhile is_space (rev (dropWhile is_space s)))"

definition startsWith :: "jstring \<Rightarrow> jstring \<Rightarrow> bool" where
  "startsWith s p = (take (length p) s = p)"

text \<open>\<^verbatim>\<open>s.slice(0, 7)\<close>\<close>

definition slice_0_7 :: "jstring \<Rightarrow> jstring" where
  "slice_0_7 s = take 7 s"

text \<open>
  \<^verbatim>\<open>a.localeCompare(b)\<close> on date and month keys: the texts are compared code unit by code
  unit. On the digits and hyphens of \<^verbatim>\<open>YYYY-MM-DD\<close> the host's collation is this order.
\<close>

fun localeCompare :: "jstring \<Rightarrow> jstring \<Rightarrow> int" where
  "localeCompare [] [] = 0"
| "localeCompare [] (y # ys) = - 1"
| "localeCompare (x # xs) [] = 1"
| "localeCompare (x # xs) (y # ys) =
     (if x < y then - 1 else if y < x then 1 else localeCompare xs ys)"

text \<open>
  \<^verbatim>\<open>xs.sort(cmp)\<close> with a comparator that does not raise: the host's sort is stable, and
  \<open>a\<close> stays before \<open>b\<close> when \<open>cmp a b \<le> 0\<close>. A stable insertion sort computes the same list.
\<close>

fun insert_sorted :: "('a \<Rightarrow> 'a \<Rightarrow> int) \<Rightarrow> 'a \<Rightarrow> 'a list \<Rightarrow> 'a list" where
  "insert_sorted cmp x [] = [x]"
| "insert_sorted cmp x (y # ys) =
     (if cmp x y \<le> 0 then x # y # ys else y # insert_sorted cmp x ys)"

definition Array_sort :: "('a \<Rightarrow> 'a \<Rightarrow> int) \<Rightarrow> 'a list \<Rightarrow> 'a list" where
  "Array_sort cmp xs = foldr (insert_sorted cmp) xs []"

text \<open>\<^verbatim>\<open>Array.from(new Set(xs))\<close>: the first occurrence of each value, in order.\<close>

fun Set_values :: "'a list \<Rightarrow> 'a list \<Rightarrow> 'a list" where
  "Set_values seen [] = rev seen"
| "Set_values seen (x # xs) =
     (if x \<in> set seen then Set_values seen xs else Set_values (x # seen) xs)"

text \<open>
  A text that the program only reads through \<^verbatim>\<open>Number\<close> (the amount field of the form, the
  stored budget) is represented by what \<^verbatim>\<open>Number\<close> makes of it; the empty text is kept
  apart, because it alone is falsy. \<^verbatim>\<open>Number("")\<close> is \<open>0\<close>; a text that is no numeric
  literal, such as \<^verbatim>\<open>"abc"\<close>, is \<open>Text_number NaN\<close>; \<^verbatim>\<open>"-5"\<close> is \<open>Text_number (Fin (- 5))\<close>.
\<close>

datatype numeric_text = Text_empty | Text_number jsnum

definition Number :: "numeric_text \<Rightarrow> jsnum" where
  "Number t = (case t of Text_empty \<Rightarrow> Fin 0 | Text_number n \<Rightarrow> n)"

text \<open>\<^verbatim>\<open>String(n)\<close> prints a number so that \<^verbatim>\<open>Number\<close> reads the same number back.\<close>

definition String :: "jsnum \<Rightarrow> numeric_text" where
  "String n = Text_number n"

section \<open>Expense records\<close>

datatype ExpenseCategory =
  Housing | Food | Transportation | Utilities | Health | Entertainment | Subscriptions
  | Savings | Other


text \<open>The text that stands for a category at run time, where the union type is erased.\<close>

fun category_name :: "ExpenseCategory \<Rightarrow> jstring" where
  "category_name Housing = str ''Housing''"
| "category_name Food = str ''Food''"
| "category_name Transportation = str ''Transportation''"
| "category_name Utilities = str ''Utilities''"
| "category_name Health = str ''Health''"
| "category_name Entertainment = str ''Entertainment''"
| "category_name Subscriptions = str ''Subscriptions''"
| "category_name Savings = str ''Savings''"
| "category_name Other = str ''Other''"

text \<open>
  The type \<^verbatim>\<open>Expense\<close> is not checked at run time: a record read from the store is any
  object that passed the filter of the loader. A field is represented by what the program
  can read of it.
  \<^item> \<^verbatim>\<open>id\<close> is tested for truthiness and compared with \<^verbatim>\<open>!==\<close>: it is a text, or another
    truthy value (\<open>Id_other k\<close>, two of which are the same value exactly when their names
    \<open>k\<close> agree), or a falsy value other than the empty text (\<open>No_id\<close>: missing, \<^verbatim>\<open>null\<close>,
    \<^verbatim>\<open>false\<close>, zero).
  \<^item> \<^verbatim>\<open>category\<close> is used as a property key: it is represented by that key, which is the
    text itself when it is a text.
  \<^item> \<^verbatim>\<open>date\<close> is used through the methods of texts: it is \<open>None\<close> when it is no text, and
    every such use then raises.
  \<^item> \<^verbatim>\<open>amount\<close> is a number: the filter tests it, and the form produces one.
  \<^item> \<^verbatim>\<open>description\<close> and \<^verbatim>\<open>notes\<close> are only displayed and written back.
\<close>

datatype id_value = Id jstring | Id_other nat | No_id

definition truthy_id :: "id_value \<Rightarrow> bool" where
  "truthy_id i = (case i of Id s \<Rightarrow> s \<noteq> [] | Id_other k \<Rightarrow> True | No_id \<Rightarrow> False)"

record Expense =
  expense_id :: id_value
  description :: jstring
  category :: jstring
  amount :: jsnum
  date :: "jstring option"
  notes_opt :: "jstring option"

section \<open>The durable store\<close>

text \<open>
  \<^verbatim>\<open>localStorage\<close> holds a text under each of the two keys, or nothing. The text under the
  expenses key is represented by what \<^verbatim>\<open>JSON.parse\<close> makes of it: a syntax error, a value
  that is no array, or an array. An element of the array is \<^verbatim>\<open>null\<close>, or another value
  without properties of its own (a number, a text, a boolean, a nested array), or an object.
  The properties of an object are represented as the fields of a record are; \<open>so_amount\<close> is
  \<open>None\<close> when \<^verbatim>\<open>typeof item.amount\<close> is not \<^verbatim>\<open>"number"\<close>.
\<close>

record stored_object =
  so_id :: id_value
  so_description :: jstring
  so_category :: jstring
  so_amount :: "jsnum option"
  so_date :: "jstring option"
  so_notes :: "jstring option"

datatype parsed_element = Null_element | Plain_element | Object_element stored_object

datatype expenses_text =
  Empty_text | Syntax_error_text | Not_array_text | Array_text "parsed_element list"

record store =
  expenses_key :: "expenses_text option"
  budget_key :: "numeric_text option"

text \<open>
  \<^verbatim>\<open>JSON.stringify(expenses)\<close>, seen through \<^verbatim>\<open>JSON.parse\<close>: every record becomes an object
  with the same properties; a non-finite amount is written as \<^verbatim>\<open>null\<close>, which is no
  number; absent notes are left out.
\<close>

definition stringify_expense :: "Expense \<Rightarrow> parsed_element" where
  "stringify_expense e = Object_element
     \<lparr> so_id = expense_id e,
       so_description = description e,
       so_category = category e,
       so_amount = (case amount e of Fin v \<Rightarrow> Some (Fin v) | _ \<Rightarrow> None),
       so_date = date e,
       so_notes = notes_opt e \<rparr>"

definition JSON_stringify :: "Expense list \<Rightarrow> expenses_text" where
  "JSON_stringify es = Array_text (map stringify_expense es)"

datatype exn = SyntaxError | TypeError | RenderError

text \<open>\<^verbatim>\<open>JSON.parse(storedExpenses)\<close> followed by the lookup of \<^verbatim>\<open>parsed.filter\<close>.\<close>

definition JSON_parse_array :: "expenses_text \<Rightarrow> exn + parsed_element list" where
  "JSON_parse_array t = (case t of
       Array_text els \<Rightarrow> Inr els
     | Not_array_text \<Rightarrow> Inl TypeError
     | _ \<Rightarrow> Inl SyntaxError)"

text \<open>
  The filter \<^verbatim>\<open>typeof item.amount === "number" && Boolean(item.id)\<close>. Reading a property
  of \<^verbatim>\<open>null\<close> raises.
\<close>

definition keep_item :: "parsed_element \<Rightarrow> exn + bool" where
  "keep_item item = (case item of
       Null_element \<Rightarrow> Inl TypeError
     | Plain_element \<Rightarrow> Inr False
     | Object_element ob \<Rightarrow> Inr (so_amount ob \<noteq> None \<and> truthy_id (so_id ob)))"

definition expense_of :: "stored_object \<Rightarrow> Expense" where
  "expense_of ob =
     \<lparr> expense_id = so_id ob,
       description = so_description ob,
       category = so_category ob,
       amount = (case so_amount ob of Some n \<Rightarrow> n | None \<Rightarrow> NaN),
       date = so_date ob,
       notes_opt = so_notes ob \<rparr>"

fun filter_items :: "parsed_element list \<Rightarrow> exn + Expense list" where
  "filter_items [] = Inr []"
| "filter_items (item # items) =
     (case keep_item item of
        Inl e \<Rightarrow> Inl e
      | Inr k \<Rightarrow>
          (case filter_items items of
             Inl e \<Rightarrow> Inl e
           | Inr kept \<Rightarrow>
               Inr (case item of
                      Object_element ob \<Rightarrow> if k then expense_of ob # kept else kept
                    | _ \<Rightarrow> kept)))"

text \<open>
  The comparator \<^verbatim>\<open>(a, b) => b.date.localeCompare(a.date)\<close> on two records whose dates are
  texts. It raises when \<^verbatim>\<open>b.date\<close> is no text.
\<close>

definition by_date_descending :: "Expense \<Rightarrow> Expense \<Rightarrow> int" where
  "by_date_descending a b =
     (case (date a, date b) of (Some x, Some y) \<Rightarrow> localeCompare y x | _ \<Rightarrow> 0)"

section \<open>The component's state\<close>

text \<open>
  The state variables of \<^verbatim>\<open>ExpenseDashboard\<close>. The form fields \<^verbatim>\<open>description\<close>, \<^verbatim>\<open>amount\<close>,
  \<^verbatim>\<open>category\<close>, \<^verbatim>\<open>date\<close> and \<^verbatim>\<open>notes\<close> carry the suffix \<open>_input\<close>, the names without it
  being those of the record fields.
\<close>

record app =
  expenses :: "Expense list"
  budget :: jsnum
  selectedMonth :: jstring
  description_input :: jstring
  amount_input :: numeric_text
  category_input :: ExpenseCategory
  date_input :: jstring
  notes_input :: jstring
  error :: jstring
  isReady :: bool

text \<open>
  What the module and the component take from their surroundings: the month key and the
  ISO date of \<^verbatim>\<open>today\<close>; whether \<^verbatim>\<open>window\<close> exists; \<open>randomUUID n\<close>, the text that the
  call number \<open>n\<close> of \<^verbatim>\<open>crypto.randomUUID()\<close> returns; \<open>sort_mixed\<close>, what the host's sort
  does with the date comparator on a list of two or more records of which some, but not
  all, have a text as date: the comparator raises on some pairs only, and which pairs are
  compared is left to the host; and \<open>row_raises\<close>, whether the library that displays
  the output of a render refuses the table row of a record (a stored description,
  category or notes that is an object cannot be displayed).
\<close>

record env =
  defaultMonth :: jstring
  today_iso :: jstring
  window_defined :: bool
  randomUUID :: "nat \<Rightarrow> jstring"
  sort_mixed :: "Expense list \<Rightarrow> exn + Expense list"
  row_raises :: "Expense \<Rightarrow> bool"

definition initial_state :: "env \<Rightarrow> app" where
  "initial_state ev =
     \<lparr> expenses = [], budget = Fin 2000, selectedMonth = defaultMonth ev,
       description_input = [], amount_input = Text_empty, category_input = Food,
       date_input = today_iso ev, notes_input = [], error = [], isReady = False \<rparr>"

text \<open>
  \<^verbatim>\<open>kept.sort((a, b) => b.date.localeCompare(a.date))\<close>. With fewer than two records the
  comparator is not called. When every date is a text the list is sorted; when none is,
  the first call of the comparator raises.
\<close>

definition sort_by_date :: "env \<Rightarrow> Expense list \<Rightarrow> exn + Expense list" where
  "sort_by_date ev kept =
     (if length kept < 2 then Inr kept
      else if list_all (\<lambda>e. date e \<noteq> None) kept then Inr (Array_sort by_date_descending kept)
      else if list_all (\<lambda>e. date e = None) kept then Inl TypeError
      else sort_mixed ev kept)"

section \<open>Derived figures\<close>

text \<open>
  The figures that a render computes from the state, in the order of the source. Reading
  \<^verbatim>\<open>item.date.slice\<close> or \<^verbatim>\<open>item.date.startsWith\<close> raises when the date is no text.
\<close>

fun date_texts :: "Expense list \<Rightarrow> exn + jstring list" where
  "date_texts [] = Inr []"
| "date_texts (item # rest) =
     (case date item of
        None \<Rightarrow> Inl TypeError
      | Some d \<Rightarrow> (case date_texts rest of Inl x \<Rightarrow> Inl x | Inr ds \<Rightarrow> Inr (d # ds)))"

definition monthOptions :: "env \<Rightarrow> Expense list \<Rightarrow> exn + jstring list" where
  "monthOptions ev es =
     (case date_texts es of
        Inl x \<Rightarrow> Inl x
      | Inr ds \<Rightarrow>
          Inr (Array_sort (\<lambda>a b. localeCompare b a)
                 (Set_values [] (map slice_0_7 ds @ [defaultMonth ev]))))"

fun filteredExpenses :: "Expense list \<Rightarrow> jstring \<Rightarrow> exn + Expense list" where
  "filteredExpenses [] month = Inr []"
| "filteredExpenses (item # rest) month =
     (case date item of
        None \<Rightarrow> Inl TypeError
      | Some d \<Rightarrow>
          (case filteredExpenses rest month of
             Inl x \<Rightarrow> Inl x
           | Inr kept \<Rightarrow> Inr (if startsWith d month then item # kept else kept)))"

text \<open>The records of \<open>filtered\<close> all have a text as date, so the comparator does not raise.\<close>

definition sortedExpenses :: "Expense list \<Rightarrow> Expense list" where
  "sortedExpenses filtered = Array_sort by_date_descending filtered"

definition totalSpent :: "Expense list \<Rightarrow> jsnum" where
  "totalSpent filtered = foldl (\<lambda>sum current. jadd sum (amount current)) (Fin 0) filtered"




text \<open>
  \<^verbatim>\<open>selectedMonth.split("-").map(Number)\<close> always has a first element, the year, and may
  have a second, the month; \<open>monthDate_of\<close> takes the two. Both are numbers, so the test for
  \<^verbatim>\<open>undefined\<close> that opens \<^verbatim>\<open>daysElapsedInMonth\<close> never succeeds and the \<^verbatim>\<open>??\<close> defaults of
  \<^verbatim>\<open>projectedSpending\<close> are never taken.
\<close>

record monthDate =
  year :: jsnum
  monthIndex :: jsnum

definition monthDate_of :: "jsnum \<Rightarrow> jsnum option \<Rightarrow> monthDate" where
  "monthDate_of y month =
     \<lparr> year = y, monthIndex = jsub (case month of None \<Rightarrow> Fin 1 | Some m \<Rightarrow> m) (Fin 1) \<rparr>"

text \<open>The calendar fields of \<^verbatim>\<open>new Date()\<close>: \<^verbatim>\<open>getFullYear\<close>, \<^verbatim>\<open>getMonth\<close>, \<^verbatim>\<open>getDate\<close>.\<close>

record calendar_day =
  getFullYear :: int
  getMonth :: int
  getDate :: int








definition remainingBudget :: "jsnum \<Rightarrow> jsnum \<Rightarrow> jsnum" where
  "remainingBudget b spent = Math_max (jsub b spent) (Fin 0)"

definition budgetUtilization :: "jsnum \<Rightarrow> jsnum \<Rightarrow> jsnum" where
  "budgetUtilization b spent =
     (if b = Fin 0 then Fin 0 else Math_min (jmul (jdiv spent b) (Fin 100)) (Fin 100))"


section \<open>Event handlers\<close>

text \<open>The two messages that \<^verbatim>\<open>handleSubmit\<close> can leave in \<^verbatim>\<open>error\<close>.\<close>

definition EmptyDescription :: jstring where
  "EmptyDescription = str ''Add a description to remember what you spent on.''"

definition InvalidAmount :: jstring where
  "InvalidAmount = str ''Enter a positive amount.''"

text \<open>
  \<^verbatim>\<open>handleSubmit\<close>; \<open>uuid\<close> is what \<^verbatim>\<open>crypto.randomUUID()\<close> returns when the record is built.
  The generator is called on that path only.
\<close>

definition handleSubmit :: "jstring \<Rightarrow> app \<Rightarrow> app" where
  "handleSubmit uuid s =
     (let parsedAmount = Number (amount_input s) in
      if trim (description_input s) = [] then s\<lparr>error := EmptyDescription\<rparr>
      else if isNaN parsedAmount \<or> jle parsedAmount (Fin 0) then s\<lparr>error := InvalidAmount\<rparr>
      else
        (let expense =
               \<lparr> expense_id = Id uuid,
                 description = trim (description_input s),
                 category = category_name (category_input s),
                 amount = Number_toFixed2 parsedAmount,
                 date = Some (date_input s),
                 notes_opt = (if trim (notes_input s) = [] then None
                              else Some (trim (notes_input s))) \<rparr>
         in s\<lparr>error := [], expenses := expense # expenses s, description_input := [],
               amount_input := Text_empty, notes_input := []\<rparr>))"

text \<open>Whether \<^verbatim>\<open>handleSubmit\<close> reaches the call of the generator.\<close>

definition submit_builds :: "app \<Rightarrow> bool" where
  "submit_builds s =
     (trim (description_input s) \<noteq> []
      \<and> \<not> (isNaN (Number (amount_input s)) \<or> jle (Number (amount_input s)) (Fin 0)))"

definition handleDelete :: "id_value \<Rightarrow> app \<Rightarrow> app" where
  "handleDelete i s = s\<lparr>expenses := filter (\<lambda>item. expense_id item \<noteq> i) (expenses s)\<rparr>"

definition handleBudgetChange :: "jsnum \<Rightarrow> app \<Rightarrow> app" where
  "handleBudgetChange v s = s\<lparr>budget := Number_toFixed2 v\<rparr>"

section \<open>Effects\<close>

text \<open>
  The body of the \<^verbatim>\<open>try\<close> block of the hydration effect, run on the state \<open>s\<close> of the
  render it belongs to: the block guarded by \<^verbatim>\<open>if (storedExpenses)\<close>, which may raise, then
  the block guarded by \<^verbatim>\<open>if (storedBudget)\<close>, which is only reached if the first did not
  raise. An exception of the parser, of the filter or of the sort leaves the first block
  before \<^verbatim>\<open>setExpenses\<close> is called.
\<close>

definition load_expenses_block :: "env \<Rightarrow> store \<Rightarrow> app \<Rightarrow> exn + app" where
  "load_expenses_block ev st s =
     (case expenses_key st of
        None \<Rightarrow> Inr s
      | Some Empty_text \<Rightarrow> Inr s
      | Some t \<Rightarrow>
          (case JSON_parse_array t of
             Inl e \<Rightarrow> Inl e
           | Inr parsed \<Rightarrow>
               (case filter_items parsed of
                  Inl e \<Rightarrow> Inl e
                | Inr kept \<Rightarrow>
                    (case sort_by_date ev kept of
                       Inl e \<Rightarrow> Inl e
                     | Inr arranged \<Rightarrow> Inr (s\<lparr>expenses := arranged\<rparr>)))))"

definition load_budget_block :: "store \<Rightarrow> app \<Rightarrow> app" where
  "load_budget_block st s =
     (case budget_key st of
        None \<Rightarrow> s
      | Some Text_empty \<Rightarrow> s
      | Some t \<Rightarrow>
          (let parsedBudget = Number t
           in if \<not> isNaN parsedBudget then s\<lparr>budget := parsedBudget\<rparr> else s))"

definition hydrate_try :: "env \<Rightarrow> store \<Rightarrow> app \<Rightarrow> exn + app" where
  "hydrate_try ev st s =
     (case load_expenses_block ev st s of
        Inl e \<Rightarrow> Inl e
      | Inr s1 \<Rightarrow> Inr (load_budget_block st s1))"

text \<open>
  The whole effect: \<^verbatim>\<open>catch\<close> logs the exception and goes on, \<^verbatim>\<open>finally\<close> sets \<^verbatim>\<open>isReady\<close>.
  The result is the state of the next render, or the exception that leaves the effect.
\<close>

definition hydration_effect :: "env \<Rightarrow> store \<Rightarrow> app \<Rightarrow> exn + app" where
  "hydration_effect ev st s =
     (if \<not> window_defined ev then Inr s
      else (case hydrate_try ev st s of
              Inl e \<Rightarrow> Inr (s\<lparr>isReady := True\<rparr>)
            | Inr s' \<Rightarrow> Inr (s'\<lparr>isReady := True\<rparr>)))"


text \<open>
  What can be observed of a run: the calls made to the store, and \<open>Hydration_applied\<close>,
  the first render whose state has \<^verbatim>\<open>isReady\<close> true, which is the render of the state that
  the hydration effect has set.
\<close>

datatype trace_event =
  GetItem_expenses | GetItem_budget | Hydration_applied
  | SetItem_expenses expenses_text | SetItem_budget numeric_text

text \<open>
  The component's state, the durable store, what has been observed so far, the number of
  calls made to \<^verbatim>\<open>crypto.randomUUID()\<close>, and whether the component is down: not mounted
  yet, or taken down because a render has raised.
\<close>

record world =
  app_state :: app
  storage :: store
  ops :: "trace_event list"
  uuid_calls :: nat
  down :: bool

text \<open>The two saving effects, run with the state \<open>cur\<close> of the render they belong to.\<close>

definition save_expenses_effect :: "env \<Rightarrow> app \<Rightarrow> world \<Rightarrow> world" where
  "save_expenses_effect ev cur w =
     (if \<not> isReady cur \<or> \<not> window_defined ev then w
      else w\<lparr>storage := (storage w)\<lparr>expenses_key := Some (JSON_stringify (expenses cur))\<rparr>,
             ops := ops w @ [SetItem_expenses (JSON_stringify (expenses cur))]\<rparr>)"

definition save_budget_effect :: "env \<Rightarrow> app \<Rightarrow> world \<Rightarrow> world" where
  "save_budget_effect ev cur w =
     (if \<not> isReady cur \<or> \<not> window_defined ev then w
      else w\<lparr>storage := (storage w)\<lparr>budget_key := Some (String (budget cur))\<rparr>,
             ops := ops w @ [SetItem_budget (String (budget cur))]\<rparr>)"

definition month_effect :: "env \<Rightarrow> app \<Rightarrow> app" where
  "month_effect ev cur =
     (case monthOptions ev (expenses cur) of
        Inl x \<Rightarrow> cur
      | Inr opts \<Rightarrow>
          (if selectedMonth cur \<in> set opts then cur
           else cur\<lparr>selectedMonth := (case opts of [] \<Rightarrow> defaultMonth ev | m # _ \<Rightarrow> m)\<rparr>))"

text \<open>
  A render with state \<open>s\<close> computes the month options, then the filtered list, then the
  output, which has a table row for every record of the filtered list; any of the three
  may raise.
\<close>

definition render :: "env \<Rightarrow> app \<Rightarrow> exn + Expense list" where
  "render ev s =
     (case monthOptions ev (expenses s) of
        Inl x \<Rightarrow> Inl x
      | Inr opts \<Rightarrow>
          (case filteredExpenses (expenses s) (selectedMonth s) of
             Inl x \<Rightarrow> Inl x
           | Inr filtered \<Rightarrow> if list_ex (row_raises ev) (sortedExpenses filtered) then Inl RenderError
               else Inr filtered))"

definition render_raises :: "env \<Rightarrow> app \<Rightarrow> bool" where
  "render_raises ev s = (case render ev s of Inl x \<Rightarrow> True | Inr f \<Rightarrow> False)"

text \<open>
  What follows a change of state from \<open>prev\<close> to \<open>cur\<close>. If the render with \<open>cur\<close> raises,
  the component is taken down and none of its effects run. Otherwise each saving effect
  runs when one of its dependencies has changed; \<open>new_array\<close> tells that \<^verbatim>\<open>setExpenses\<close> was
  given a new array, which counts as a change whatever it holds. Last, the month effect
  may move \<^verbatim>\<open>selectedMonth\<close>, on which no saving effect depends, and the state is rendered
  once more.
\<close>

definition rerender :: "env \<Rightarrow> app \<Rightarrow> app \<Rightarrow> bool \<Rightarrow> world \<Rightarrow> world" where
  "rerender ev prev cur new_array w =
     (if render_raises ev cur then w\<lparr>app_state := cur, down := True\<rparr>
      else
        (let w0 = (if isReady cur \<and> \<not> isReady prev
                   then w\<lparr>ops := ops w @ [Hydration_applied]\<rparr> else w);
             w1 = (if new_array \<or> isReady cur \<noteq> isReady prev
                   then save_expenses_effect ev cur w0 else w0);
             w2 = (if budget cur \<noteq> budget prev \<or> isReady cur \<noteq> isReady prev
                   then save_budget_effect ev cur w1 else w1);
             s2 = month_effect ev cur
         in w2\<lparr>app_state := s2, down := (s2 \<noteq> cur \<and> render_raises ev s2)\<rparr>))"

text \<open>
  Mounting: the first render has the initial state, and after it all effects run in the
  order of the source, each with that state: the hydration effect reads the store, the two
  saving effects see \<^verbatim>\<open>isReady\<close> false. The state set by the hydration effect is that of
  the second render.
\<close>

definition mount :: "env \<Rightarrow> world \<Rightarrow> world" where
  "mount ev w =
     (let s0 = initial_state ev in
      if render_raises ev s0 then w\<lparr>app_state := s0, down := True\<rparr>
      else
        (let w1 = (if window_defined ev
                   then w\<lparr>ops := ops w @ [GetItem_expenses, GetItem_budget]\<rparr> else w);
             s1 = (case hydration_effect ev (storage w) s0 of Inr s' \<Rightarrow> s' | Inl e \<Rightarrow> s0);
             w2 = save_expenses_effect ev s0 w1;
             w3 = save_budget_effect ev s0 w2
         in rerender ev s0 s1 (expenses s1 \<noteq> expenses s0) (w3\<lparr>down := False\<rparr>)))"

text \<open>
  What happens to the component: the page is loaded, or the user submits the form, removes
  the record with a given id, moves the budget slider, or edits a field.
\<close>

datatype event =
  Mount
  | Submit
  | Delete id_value
  | BudgetChange jsnum
  | SelectMonth jstring
  | SetDescription jstring
  | SetAmount numeric_text
  | SetCategory ExpenseCategory
  | SetDate jstring
  | SetNotes jstring

text \<open>An event other than loading the page finds no handler once the component is down.\<close>

definition step :: "env \<Rightarrow> world \<Rightarrow> event \<Rightarrow> world" where
  "step ev w e =
     (let prev = app_state w in
      if e = Mount then mount ev w
      else if down w then w
      else (case e of
        Mount \<Rightarrow> mount ev w
      | Submit \<Rightarrow>
          (let cur = handleSubmit (randomUUID ev (uuid_calls w)) prev;
               w' = (if submit_builds prev then w\<lparr>uuid_calls := Suc (uuid_calls w)\<rparr> else w)
           in rerender ev prev cur (expenses cur \<noteq> expenses prev) w')
      | Delete i \<Rightarrow> rerender ev prev (handleDelete i prev) True w
      | BudgetChange v \<Rightarrow> rerender ev prev (handleBudgetChange v prev) False w
      | SelectMonth m \<Rightarrow> rerender ev prev (prev\<lparr>selectedMonth := m\<rparr>) False w
      | SetDescription d \<Rightarrow> rerender ev prev (prev\<lparr>description_input := d\<rparr>) False w
      | SetAmount a \<Rightarrow> rerender ev prev (prev\<lparr>amount_input := a\<rparr>) False w
      | SetCategory c \<Rightarrow> rerender ev prev (prev\<lparr>category_input := c\<rparr>) False w
      | SetDate d \<Rightarrow> rerender ev prev (prev\<lparr>date_input := d\<rparr>) False w
      | SetNotes n \<Rightarrow> rerender ev prev (prev\<lparr>notes_input := n\<rparr>) False w))"

definition run :: "env \<Rightarrow> world \<Rightarrow> event list \<Rightarrow> world" where
  "run ev w es = foldl (step ev) w es"

text \<open>Before the page is first loaded nothing is mounted.\<close>

definition start :: "env \<Rightarrow> store \<Rightarrow> world" where
  "start ev st =
     \<lparr> app_state = initial_state ev, storage = st, ops = [], uuid_calls = 0, down = True \<rparr>"

text \<open>
  Reading what was observed from the oldest on. \<^verbatim>\<open>getItem\<close> of the expenses opens a load;
  a \<^verbatim>\<open>setItem\<close> is in order only if, since the last load was opened, the budget has been
  read as well and the loaded state has been rendered.
\<close>

fun load_first :: "bool \<Rightarrow> bool \<Rightarrow> bool \<Rightarrow> trace_event list \<Rightarrow> bool" where
  "load_first ge gb ap [] = True"
| "load_first ge gb ap (GetItem_expenses # rest) = load_first True False False rest"
| "load_first ge gb ap (GetItem_budget # rest) = load_first ge True ap rest"
| "load_first ge gb ap (Hydration_applied # rest) = load_first ge gb True rest"
| "load_first ge gb ap (SetItem_expenses t # rest) = (ge \<and> gb \<and> ap \<and> load_first ge gb ap rest)"
| "load_first ge gb ap (SetItem_budget t # rest) = (ge \<and> gb \<and> ap \<and> load_first ge gb ap rest)"


section \<open>Notions used in the proofs\<close>

text \<open>
  The entries that the loader keeps: objects whose amount is a number and whose id is
  truthy. \<open>kept_of\<close> gives the records made of them, in the stored order.
\<close>

definition well_formed :: "stored_object \<Rightarrow> bool" where
  "well_formed ob = (so_amount ob \<noteq> None \<and> truthy_id (so_id ob))"

fun objects_of :: "parsed_element list \<Rightarrow> stored_object list" where
  "objects_of [] = []"
| "objects_of (Object_element ob # els) = ob # objects_of els"
| "objects_of (el # els) = objects_of els"

definition kept_of :: "parsed_element list \<Rightarrow> Expense list" where
  "kept_of els = map expense_of (filter well_formed (objects_of els))"

text \<open>Every record has a text as date; no record has; some have and some have not.\<close>

definition text_dates :: "Expense list \<Rightarrow> bool" where
  "text_dates es = list_all (\<lambda>e. date e \<noteq> None) es"

definition no_text_dates :: "Expense list \<Rightarrow> bool" where
  "no_text_dates es = list_all (\<lambda>e. date e = None) es"

definition mixed_dates :: "Expense list \<Rightarrow> bool" where
  "mixed_dates es = (2 \<le> length es \<and> \<not> text_dates es \<and> \<not> no_text_dates es)"

text \<open>Most recent date first: of two records, the earlier in the list has the later date.\<close>

definition later_or_same :: "Expense \<Rightarrow> Expense \<Rightarrow> bool" where
  "later_or_same a b =
     (case (date a, date b) of (Some x, Some y) \<Rightarrow> localeCompare y x \<le> 0 | _ \<Rightarrow> False)"

definition date_descending :: "Expense list \<Rightarrow> bool" where
  "date_descending es = sorted_wrt later_or_same es"

text \<open>The state of the component once it has been mounted on a store.\<close>

definition mounted :: "env \<Rightarrow> store \<Rightarrow> app" where
  "mounted ev st = app_state (mount ev (start ev st))"



text \<open>A percentage: between \<open>0\<close> and \<open>100\<close>, in the host's comparison.\<close>

definition in_percent_range :: "jsnum \<Rightarrow> bool" where
  "in_percent_range r = (jle (Fin 0) r \<and> jle r (Fin 100))"

text \<open>
  The stored array is read and filtered without an exception, and of the records kept,
  two or more, some have a text as date and some have not: what the sort does is left to
  the host.
\<close>

definition mixed_store :: "store \<Rightarrow> bool" where
  "mixed_store st =
     (case expenses_key st of
        Some (Array_text els) \<Rightarrow> Null_element \<notin> set els \<and> mixed_dates (kept_of els)
      | _ \<Rightarrow> False)"

text \<open>
  What the block guarded by \<^verbatim>\<open>if (storedExpenses)\<close> hands to \<^verbatim>\<open>setExpenses\<close> (\<open>Inr\<close>), if it
  does not raise (\<open>Inl\<close>); \<open>None\<close> when the block is skipped.
\<close>

definition stored_expenses :: "env \<Rightarrow> store \<Rightarrow> (exn + Expense list) option" where
  "stored_expenses ev st =
     (case expenses_key st of
        None \<Rightarrow> None
      | Some Empty_text \<Rightarrow> None
      | Some Syntax_error_text \<Rightarrow> Some (Inl SyntaxError)
      | Some Not_array_text \<Rightarrow> Some (Inl TypeError)
      | Some (Array_text els) \<Rightarrow>
          Some (if Null_element \<in> set els then Inl TypeError
                else sort_by_date ev (kept_of els)))"

text \<open>
  The block guarded by \<^verbatim>\<open>if (storedExpenses)\<close> raises: the text cannot be parsed, or is no
  array, or the array holds \<^verbatim>\<open>null\<close>, or the comparator of the sort raises.
\<close>

definition load_raises :: "env \<Rightarrow> store \<Rightarrow> bool" where
  "load_raises ev st =
     (case expenses_key st of
        Some Syntax_error_text \<Rightarrow> True
      | Some Not_array_text \<Rightarrow> True
      | Some (Array_text els) \<Rightarrow>
          Null_element \<in> set els
          \<or> (2 \<le> length (kept_of els) \<and> no_text_dates (kept_of els))
          \<or> (mixed_dates (kept_of els) \<and> isl (sort_mixed ev (kept_of els)))
      | _ \<Rightarrow> False)"

text \<open>A number as the host has it: not a number, infinite, or a real that is a double.\<close>

definition is_double :: "jsnum \<Rightarrow> bool" where
  "is_double x = (case x of Fin v \<Rightarrow> to_double v = Fin v | _ \<Rightarrow> True)"

text \<open>Every record has a text as id that one of the first \<open>n\<close> calls of the generator returned.\<close>

definition issued :: "env \<Rightarrow> nat \<Rightarrow> Expense list \<Rightarrow> bool" where
  "issued ev n es = list_all (\<lambda>e. \<exists>k<n. expense_id e = Id (randomUUID ev k)) es"

text \<open>The generator never returns the same text twice.\<close>

definition never_repeats :: "env \<Rightarrow> bool" where
  "never_repeats ev = inj (randomUUID ev)"

text \<open>
  Where a load stands after what was observed: whether, since it was opened, the expenses
  and the budget have been read and the loaded state has been rendered.
\<close>

fun load_state :: "bool \<Rightarrow> bool \<Rightarrow> bool \<Rightarrow> trace_event list \<Rightarrow> bool \<times> bool \<times> bool" where
  "load_state ge gb ap [] = (ge, gb, ap)"
| "load_state ge gb ap (GetItem_expenses # rest) = load_state True False False rest"
| "load_state ge gb ap (GetItem_budget # rest) = load_state ge True ap rest"
| "load_state ge gb ap (Hydration_applied # rest) = load_state ge gb True rest"
| "load_state ge gb ap (SetItem_expenses t # rest) = load_state ge gb ap rest"
| "load_state ge gb ap (SetItem_budget t # rest) = load_state ge gb ap rest"

text \<open>
  The invariant of the saving effects: what was observed is in order, and while the
  component is up \<^verbatim>\<open>isReady\<close> is only set once the load is complete.
\<close>

definition ordered :: "world \<Rightarrow> bool" where
  "ordered w =
     (load_first False False False (ops w)
      \<and> (isReady (app_state w) \<and> \<not> down w \<longrightarrow>
           load_state False False False (ops w) = (True, True, True)))"

text \<open>The state that the hydration effect sets when the component is mounted on a store.\<close>

definition hydrated :: "env \<Rightarrow> store \<Rightarrow> app" where
  "hydrated ev st =
     (case hydration_effect ev st (initial_state ev) of
        Inr s' \<Rightarrow> s' | Inl e \<Rightarrow> initial_state ev)"









definition unique_ids :: "Expense list \<Rightarrow> bool" where
  "unique_ids es = distinct (map expense_id es)"


text \<open>
  Records that the component has made itself with the first \<open>n\<close> calls of the generator,
  and a store that holds nothing under the expenses key or what the component has written
  there.
\<close>

definition own_records :: "env \<Rightarrow> nat \<Rightarrow> Expense list \<Rightarrow> bool" where
  "own_records ev n es = (issued ev n es \<and> unique_ids es \<and> text_dates es)"




section \<open>Concrete inputs\<close>

text \<open>
  The inputs at which the theorems below are evaluated. The generator of \<open>env_june\<close>
  returns \<^verbatim>\<open>"u"\<close>, \<^verbatim>\<open>"uu"\<close>, \<^verbatim>\<open>"uuu"\<close> and so on; its sort raises on a list with mixed dates,
  and every row can be displayed.
\<close>

definition sample_uuid :: "nat \<Rightarrow> jstring" where
  "sample_uuid n = replicate (Suc n) 117"

definition env_june :: env where
  "env_june =
     \<lparr> defaultMonth = str ''2024-06'', today_iso = str ''2024-06-15'', window_defined = True,
       randomUUID = sample_uuid, sort_mixed = (\<lambda>es. Inl TypeError),
       row_raises = (\<lambda>e. False) \<rparr>"

definition rent :: Expense where
  "rent = \<lparr> expense_id = Id (str ''a1''), description = str ''Rent'',
            category = str ''Housing'', amount = Fin 1500, date = Some (str ''2024-06-01''),
            notes_opt = None \<rparr>"

definition store_rent :: store where
  "store_rent = \<lparr> expenses_key = Some (JSON_stringify [rent]),
                  budget_key = Some (String (Fin 1800)) \<rparr>"

definition form_june :: app where
  "form_june = (initial_state env_june)\<lparr>isReady := True, expenses := [rent]\<rparr>"

definition form_coffee :: app where
  "form_coffee =
     form_june\<lparr>description_input := str '' Coffee '',
       amount_input := Text_number (Fin (9 / 2)),
       date_input := str ''2024-06-02'', notes_input := str '' ''\<rparr>"

text \<open>
  A description of a space and a no-break space, and the amount text \<^verbatim>\<open>"0"\<close>.
\<close>

definition form_blank_zero :: app where
  "form_blank_zero =
     form_june\<lparr>description_input := [32, 160], amount_input := Text_number (Fin 0)\<rparr>"

definition form_minus_five :: app where
  "form_minus_five =
     form_june\<lparr>description_input := str ''Coffee'', amount_input := Text_number (Fin (- 5))\<rparr>"

definition coffee :: Expense where
  "coffee = \<lparr> expense_id = Id (str ''b2''), description = str ''Coffee'',
              category = str ''Food'', amount = Fin (9 / 2), date = Some (str ''2024-06-02''),
              notes_opt = Some (str ''to go'') \<rparr>"

text \<open>Rent is dated 1 June and was entered after the coffee of 2 June, so it comes first.\<close>

definition rent_then_coffee :: app where
  "rent_then_coffee = form_june\<lparr>expenses := [rent, coffee]\<rparr>"

definition coffee_then_rent :: app where
  "coffee_then_rent = form_june\<lparr>expenses := [coffee, rent]\<rparr>"

definition empty_store :: store where
  "empty_store = \<lparr> expenses_key = None, budget_key = None \<rparr>"

text \<open>A stored array whose second element is \<^verbatim>\<open>null\<close>, next to a valid budget.\<close>

definition store_with_null :: store where
  "store_with_null =
     \<lparr> expenses_key = Some (Array_text [stringify_expense rent, Null_element]),
       budget_key = Some (String (Fin 1800)) \<rparr>"

text \<open>
  A stored array with the rent, a number, an object without id, one with an empty id and
  one whose amount is a text; the budget text is no number.
\<close>

definition store_mixed :: store where
  "store_mixed =
     \<lparr> expenses_key = Some (Array_text
         [stringify_expense rent,
          Plain_element,
          Object_element \<lparr> so_id = No_id, so_description = str ''x'',
            so_category = str ''Other'', so_amount = Some (Fin 3),
            so_date = Some (str ''2024-06-03''), so_notes = None \<rparr>,
          Object_element \<lparr> so_id = Id [], so_description = str ''y'',
            so_category = str ''Other'', so_amount = Some (Fin 4),
            so_date = Some (str ''2024-06-04''), so_notes = None \<rparr>,
          Object_element \<lparr> so_id = Id (str ''c3''), so_description = str ''z'',
            so_category = str ''Other'', so_amount = None,
            so_date = Some (str ''2024-06-05''), so_notes = None \<rparr>]),
       budget_key = Some (Text_number NaN) \<rparr>"

definition store_ascending :: store where
  "store_ascending =
     \<lparr> expenses_key = Some (Array_text [stringify_expense rent, stringify_expense coffee]),
       budget_key = None \<rparr>"

text \<open>
  Two stored entries with a numeric amount and an id but no date, next to a valid budget.
\<close>

definition undated :: "jstring \<Rightarrow> stored_object" where
  "undated i =
     \<lparr> so_id = Id i, so_description = str ''Bus'', so_category = str ''Transportation'',
       so_amount = Some (Fin 3), so_date = None, so_notes = None \<rparr>"

definition store_undated :: store where
  "store_undated =
     \<lparr> expenses_key = Some (Array_text [Object_element (undated (str ''h8'')),
                                        Object_element (undated (str ''i9''))]),
       budget_key = Some (String (Fin 1800)) \<rparr>"

text \<open>A snack of 50 in June, in a store whose budget text is \<^verbatim>\<open>"-100"\<close>.\<close>

definition snack :: Expense where
  "snack = \<lparr> expense_id = Id (str ''c3''), description = str ''Snack'',
             category = str ''Food'', amount = Fin 50, date = Some (str ''2024-06-03''),
             notes_opt = None \<rparr>"

definition store_negative_budget :: store where
  "store_negative_budget =
     \<lparr> expenses_key = Some (JSON_stringify [snack]),
       budget_key = Some (Text_number (Fin (- 100))) \<rparr>"

text \<open>June 2024 as \<^verbatim>\<open>monthDate\<close>, from the parts \<open>2024\<close> and \<open>6\<close> of \<^verbatim>\<open>"2024-06"\<close>.\<close>

definition june_2024 :: monthDate where
  "june_2024 = monthDate_of (Fin 2024) (Some (Fin 6))"

definition mid_june :: calendar_day where
  "mid_june = \<lparr> getFullYear = 2024, getMonth = 5, getDate = 15 \<rparr>"

text \<open>A stored refund of \<open>-5\<close>: its amount is a number and its id is not empty.\<close>

definition refund :: Expense where
  "refund = \<lparr> expense_id = Id (str ''d4''), description = str ''Refund'',
              category = str ''Other'', amount = Fin (- 5), date = Some (str ''2024-06-04''),
              notes_opt = None \<rparr>"

definition store_refund :: store where
  "store_refund = \<lparr> expenses_key = Some (JSON_stringify [refund]), budget_key = None \<rparr>"

text \<open>
  Three records of June: a purchase of \<open>2\<^sup>5\<^sup>3\<close> = 9007199254740992 in one category and two
  of \<open>1\<close> in another.
\<close>

definition purchase :: Expense where
  "purchase = \<lparr> expense_id = Id (str ''e5''), description = str ''Estate'',
                category = str ''Food'', amount = Fin 9007199254740992,
                date = Some (str ''2024-06-05''), notes_opt = None \<rparr>"

definition stamp :: Expense where
  "stamp = \<lparr> expense_id = Id (str ''f6''), description = str ''Stamp'',
             category = str ''Housing'', amount = Fin 1, date = Some (str ''2024-06-06''),
             notes_opt = None \<rparr>"

definition stamp' :: Expense where
  "stamp' = \<lparr> expense_id = Id (str ''g7''), description = str ''Stamp'',
              category = str ''Housing'', amount = Fin 1, date = Some (str ''2024-06-07''),
              notes_opt = None \<rparr>"

text \<open>A stored record of June whose category is \<^verbatim>\<open>"Pets"\<close>.\<close>

definition vet :: Expense where
  "vet = \<lparr> expense_id = Id (str ''j0''), description = str ''Vet'',
           category = str ''Pets'', amount = Fin 80, date = Some (str ''2024-06-08''),
           notes_opt = None \<rparr>"

definition store_vet :: store where
  "store_vet = \<lparr> expenses_key = Some (JSON_stringify [vet]), budget_key = None \<rparr>"

text \<open>The form holding the amount text \<^verbatim>\<open>"0.0009765625"\<close>, which is \<open>1 / 1024\<close>.\<close>

definition form_tiny :: app where
  "form_tiny =
     form_june\<lparr>description_input := str ''Gum'',
       amount_input := Text_number (Fin (1 / 1024))\<rparr>"

text \<open>The component showing the form with the coffee, after one call of the generator.\<close>

definition rent_u :: Expense where
  "rent_u = rent\<lparr>expense_id := Id (sample_uuid 0)\<rparr>"

definition world_coffee :: world where
  "world_coffee =
     \<lparr> app_state = form_coffee\<lparr>expenses := [rent_u]\<rparr>,
       storage = \<lparr> expenses_key = Some (JSON_stringify [rent_u]),
                   budget_key = Some (String (Fin 2000)) \<rparr>,
       ops = [], uuid_calls = 1, down = False \<rparr>"

text \<open>A store holding the rent twice.\<close>

definition store_twice :: store where
  "store_twice = \<lparr> expenses_key = Some (JSON_stringify [rent, rent]), budget_key = None \<rparr>"


section \<open>Facts about rounding\<close>

lemma pow2_powr: "pow2 e = 2 powr (real_of_int e)"
  unfolding pow2_def
  by (auto simp: powr_realpow[symmetric] powr_minus field_simps)

lemma pow2_pos [simp]: "0 < pow2 e"
  by (simp add: pow2_powr)

lemma pow2_less_iff: "pow2 a < pow2 b \<longleftrightarrow> a < b"
  by (simp add: pow2_powr)

lemma pow2_le_iff: "pow2 a \<le> pow2 b \<longleftrightarrow> a \<le> b"
  by (simp add: pow2_powr)

lemma bit_length_nonneg: "0 \<le> bit_length k"
  by (induction k rule: bit_length.induct) (subst bit_length.simps, simp)

lemma bit_length_pos: "0 < k \<Longrightarrow> 1 \<le> bit_length k"
  using bit_length_nonneg [of "k div 2"] by (subst bit_length.simps) simp

lemma bit_length_bounds_int:
  "0 < k \<Longrightarrow> 2 ^ nat (bit_length k - 1) \<le> k \<and> k < 2 ^ nat (bit_length k)"
proof (induction k rule: bit_length.induct)
  case (1 k)
  show ?case
  proof (cases "k = 1")
    case True
    then show ?thesis
      by (simp add: bit_length.simps[of 1] bit_length.simps[of 0])
  next
    case False
    with "1.prems" have k2: "0 < k div 2" by linarith
    define b where "b = bit_length (k div 2)"
    from "1.IH" "1.prems" k2
    have ih: "2 ^ nat (b - 1) \<le> k div 2" "k div 2 < 2 ^ nat b"
      by (auto simp: b_def)
    have b1: "1 \<le> b" unfolding b_def by (rule bit_length_pos [OF k2])
    have bl: "bit_length k = 1 + b"
      using "1.prems" unfolding b_def by (subst bit_length.simps) simp
    have "nat b = Suc (nat (b - 1))" using b1 by linarith
    then have split: "(2::int) ^ nat b = 2 * 2 ^ nat (b - 1)"
      by (simp only: power_Suc)
    have "nat (1 + b) = Suc (nat b)" using b1 by linarith
    then have split2: "(2::int) ^ nat (1 + b) = 2 * 2 ^ nat b"
      by (simp only: power_Suc)
    have "2 * (k div 2) \<le> k" "k < 2 * (k div 2) + 2" by linarith+
    with ih split split2 show ?thesis
      unfolding bl by (simp only: add_diff_cancel_left') linarith
  qed
qed

lemma pow2_of_nat: "0 \<le> e \<Longrightarrow> pow2 e = of_int (2 ^ nat e)"
  by (simp add: pow2_def)

lemma bit_length_bounds:
  assumes "0 < k"
  shows "pow2 (bit_length k - 1) \<le> of_int k" and "of_int k + 1 \<le> pow2 (bit_length k)"
proof -
  have b1: "0 \<le> bit_length k - 1" using bit_length_pos [OF assms] by simp
  from bit_length_bounds_int [OF assms]
  have "2 ^ nat (bit_length k - 1) \<le> k" "k + 1 \<le> 2 ^ nat (bit_length k)" by auto
  then have "real_of_int (2 ^ nat (bit_length k - 1)) \<le> of_int k"
    "real_of_int (k + 1) \<le> of_int (2 ^ nat (bit_length k))"
    by (simp_all only: of_int_le_iff)
  then show "pow2 (bit_length k - 1) \<le> of_int k" "of_int k + 1 \<le> pow2 (bit_length k)"
    using b1 bit_length_nonneg [of k] by (simp_all add: pow2_of_nat)
qed

lemma binade_lower:
  assumes "x \<noteq> 0"
  shows "pow2 (binade x) \<le> \<bar>x\<bar>"
proof (cases "1 \<le> \<bar>x\<bar>")
  case True
  then have k: "0 < \<lfloor>\<bar>x\<bar>\<rfloor>" by linarith
  have "pow2 (bit_length \<lfloor>\<bar>x\<bar>\<rfloor> - 1) \<le> of_int \<lfloor>\<bar>x\<bar>\<rfloor>"
    by (rule bit_length_bounds(1) [OF k])
  also have "\<dots> \<le> \<bar>x\<bar>" by linarith
  finally show ?thesis using True by (simp add: binade_def)
next
  case False
  define m where "m = \<lceil>1 / \<bar>x\<bar>\<rceil> - 1"
  have y: "1 < 1 / \<bar>x\<bar>" using False assms by (simp add: field_simps)
  then have m0: "0 < m" unfolding m_def by linarith
  have "1 / \<bar>x\<bar> \<le> of_int m + 1" unfolding m_def by linarith
  also have "\<dots> \<le> pow2 (bit_length m)" by (rule bit_length_bounds(2) [OF m0])
  finally have "1 / \<bar>x\<bar> \<le> pow2 (bit_length m)" .
  then have "1 / pow2 (bit_length m) \<le> \<bar>x\<bar>"
    using assms by (simp add: field_simps)
  moreover have "pow2 (- bit_length m) = 1 / pow2 (bit_length m)"
    by (simp add: pow2_powr powr_minus field_simps)
  ultimately show ?thesis using False by (simp add: binade_def m_def)
qed

lemma binade_upper:
  assumes "x \<noteq> 0"
  shows "\<bar>x\<bar> < pow2 (binade x + 1)"
proof (cases "1 \<le> \<bar>x\<bar>")
  case True
  then have k: "0 < \<lfloor>\<bar>x\<bar>\<rfloor>" by linarith
  have "\<bar>x\<bar> < of_int \<lfloor>\<bar>x\<bar>\<rfloor> + 1" by linarith
  also have "\<dots> \<le> pow2 (bit_length \<lfloor>\<bar>x\<bar>\<rfloor>)"
    by (rule bit_length_bounds(2) [OF k])
  finally show ?thesis using True by (simp add: binade_def)
next
  case False
  define m where "m = \<lceil>1 / \<bar>x\<bar>\<rceil> - 1"
  have y: "1 < 1 / \<bar>x\<bar>" using False assms by (simp add: field_simps)
  then have m0: "0 < m" unfolding m_def by linarith
  have "pow2 (bit_length m - 1) \<le> of_int m" by (rule bit_length_bounds(1) [OF m0])
  also have "\<dots> < 1 / \<bar>x\<bar>" unfolding m_def by linarith
  finally have "pow2 (bit_length m - 1) < 1 / \<bar>x\<bar>" .
  then have "\<bar>x\<bar> < 1 / pow2 (bit_length m - 1)"
    using assms by (simp add: field_simps)
  moreover have "pow2 (- bit_length m + 1) = 1 / pow2 (bit_length m - 1)"
    by (simp add: pow2_powr powr_minus field_simps flip: powr_add)
  ultimately show ?thesis using False by (simp add: binade_def m_def)
qed

lemma binade_unique:
  assumes "pow2 e \<le> \<bar>x\<bar>" and "\<bar>x\<bar> < pow2 (e + 1)"
  shows "binade x = e"
proof -
  have nz: "x \<noteq> 0" using assms(1) pow2_pos [of e] by (auto simp: not_le [symmetric] simp del: pow2_pos)
  from binade_lower [OF nz] binade_upper [OF nz] assms
  have "pow2 (binade x) < pow2 (e + 1)" "pow2 e < pow2 (binade x + 1)" by linarith+
  then show ?thesis by (simp add: pow2_less_iff)
qed

text \<open>Evaluating the rounding of a number whose binade is known.\<close>

lemma to_double_normal:
  assumes "pow2 e \<le> \<bar>x\<bar>" and "\<bar>x\<bar> < pow2 (e + 1)" and "- 1022 \<le> e"
    and "r = pow2 (e - 52) * of_int (round_ties_even (x / pow2 (e - 52)))"
    and "\<bar>r\<bar> < 2 ^ 1024"
  shows "to_double x = Fin r"
proof -
  have nz: "x \<noteq> 0" using assms(1) pow2_pos [of e] by (auto simp: not_le [symmetric] simp del: pow2_pos)
  have b: "binade x = e" by (rule binade_unique [OF assms(1,2)])
  have m: "max e (- 1022) = e" using assms(3) by simp
  show ?thesis
    using nz assms(4,5) by (simp add: to_double_def b m Let_def)
qed

lemma round_ties_even_of_int [simp]: "round_ties_even (of_int n) = n"
  by (simp add: round_ties_even_def)

lemma round_ties_even_nonneg: "0 \<le> y \<Longrightarrow> 0 \<le> round_ties_even y"
  by (auto simp: round_ties_even_def Let_def)

lemma round_ties_even_nonpos: "y \<le> 0 \<Longrightarrow> round_ties_even y \<le> 0"
  unfolding round_ties_even_def Let_def
  by (auto split: if_splits)

lemma round_ties_even_ge1: "1 \<le> y \<Longrightarrow> 1 \<le> round_ties_even y"
  unfolding round_ties_even_def Let_def
  by (auto split: if_splits)



lemma to_double_nonneg:
  assumes "0 \<le> x"
  shows "to_double x = PInf \<or> (\<exists>r. 0 \<le> r \<and> to_double x = Fin r)"
proof (cases "x = 0")
  case True
  then show ?thesis by (simp add: to_double_def)
next
  case False
  define q where "q = pow2 (max (binade x) (- 1022) - 52)"
  have q: "0 < q" by (simp add: q_def)
  have "0 \<le> x / q" using assms q by simp
  then have "0 \<le> round_ties_even (x / q)" by (rule round_ties_even_nonneg)
  then have "0 \<le> q * of_int (round_ties_even (x / q))" using q by simp
  then show ?thesis
    using False assms unfolding to_double_def Let_def q_def [symmetric] by auto
qed

lemma to_double_nonpos:
  assumes "x \<le> 0"
  shows "to_double x = NInf \<or> (\<exists>r. r \<le> 0 \<and> to_double x = Fin r)"
proof (cases "x = 0")
  case True
  then show ?thesis by (simp add: to_double_def)
next
  case False
  define q where "q = pow2 (max (binade x) (- 1022) - 52)"
  have q: "0 < q" by (simp add: q_def)
  have "x / q \<le> 0" using assms q by (simp add: divide_nonpos_pos)
  then have "round_ties_even (x / q) \<le> 0" by (rule round_ties_even_nonpos)
  then have "q * of_int (round_ties_even (x / q)) \<le> 0" using q
    by (simp add: mult_le_0_iff)
  then show ?thesis
    using False assms unfolding to_double_def Let_def q_def [symmetric] by auto
qed

text \<open>A number of at least \<open>2\<^sup>-\<^sup>1\<^sup>0\<^sup>7\<^sup>4\<close> is not rounded to zero.\<close>

lemma to_double_pos:
  assumes "pow2 (- 1074) \<le> x"
  shows "to_double x = PInf \<or> (\<exists>r. 0 < r \<and> to_double x = Fin r)"
proof -
  have x0: "0 < x" using assms pow2_pos [of "- 1074"] by linarith
  define q where "q = pow2 (max (binade x) (- 1022) - 52)"
  have q: "0 < q" by (simp add: q_def)
  have "q \<le> x"
  proof (cases "- 1022 \<le> binade x")
    case True
    then have "q = pow2 (binade x - 52)" by (simp add: q_def max_def)
    also have "\<dots> \<le> pow2 (binade x)" by (simp add: pow2_le_iff)
    also have "\<dots> \<le> x" using binade_lower [of x] x0 by simp
    finally show ?thesis .
  next
    case False
    then have "q = pow2 (- 1074)" by (simp add: q_def max_def)
    then show ?thesis using assms by simp
  qed
  then have "1 \<le> x / q" using q by (simp add: field_simps)
  then have "1 \<le> round_ties_even (x / q)" by (rule round_ties_even_ge1)
  then have "0 < q * of_int (round_ties_even (x / q))" using q by simp
  then show ?thesis
    using x0 unfolding to_double_def Let_def q_def [symmetric] by auto
qed

lemma pow2_neg_inverse: "pow2 (- e) = 1 / pow2 e"
  by (simp add: pow2_powr powr_minus field_simps)

text \<open>An integer of magnitude at most \<open>2\<^sup>5\<^sup>3\<close> is a double.\<close>

lemma to_double_of_int:
  assumes "\<bar>n\<bar> \<le> 2 ^ 53"
  shows "to_double (of_int n) = Fin (of_int n)"
proof (cases "n = 0")
  case True
  then show ?thesis by (simp add: to_double_def)
next
  case False
  define x where "x = real_of_int n"
  define e where "e = binade x"
  have nz: "x \<noteq> 0" using False by (simp add: x_def)
  have "1 \<le> \<bar>n\<bar>" using False by linarith
  then have "real_of_int 1 \<le> real_of_int \<bar>n\<bar>" by (simp only: of_int_le_iff)
  then have x1: "1 \<le> \<bar>x\<bar>" by (simp add: x_def)
  have "real_of_int \<bar>n\<bar> \<le> real_of_int (2 ^ 53)" using assms by (simp only: of_int_le_iff)
  then have x53: "\<bar>x\<bar> \<le> pow2 53" by (simp add: x_def pow2_def)
  have lo: "pow2 e \<le> \<bar>x\<bar>" and hi: "\<bar>x\<bar> < pow2 (e + 1)"
    using binade_lower [OF nz] binade_upper [OF nz] by (simp_all add: e_def)
  have "pow2 0 < pow2 (e + 1)" using x1 hi by (simp add: pow2_def)
  then have e0: "0 \<le> e" by (simp add: pow2_less_iff)
  have "pow2 e \<le> pow2 53" using lo x53 by linarith
  then have e53: "e \<le> 53" by (simp add: pow2_le_iff)
  define q where "q = pow2 (e - 52)"
  have q: "0 < q" by (simp add: q_def)
  have "\<exists>k::int. x / q = of_int k"
  proof (cases "e \<le> 52")
    case True
    have "1 / q = pow2 (52 - e)" using pow2_neg_inverse [of "e - 52"] by (simp add: q_def)
    also have "\<dots> = of_int (2 ^ nat (52 - e))" using True by (simp add: pow2_of_nat)
    finally have iq: "1 / q = of_int (2 ^ nat (52 - e))" .
    have "x / q = x * (1 / q)" by simp
    also have "\<dots> = of_int (n * 2 ^ nat (52 - e))"
      unfolding iq by (simp add: x_def)
    finally have "x / q = of_int (n * 2 ^ nat (52 - e))" .
    then show ?thesis by blast
  next
    case False
    with e53 have e: "e = 53" by simp
    then have "\<bar>x\<bar> = pow2 53" using lo x53 by simp
    then have "real_of_int \<bar>n\<bar> = real_of_int (2 ^ 53)" by (simp add: x_def pow2_def)
    then have "\<bar>n\<bar> = 2 ^ 53" by (simp only: of_int_eq_iff)
    then have "even \<bar>n\<bar>" by simp
    then have "even n" by simp
    then obtain k where "n = 2 * k" by (auto elim: evenE)
    then have "x / q = of_int k" by (simp add: x_def q_def e pow2_def)
    then show ?thesis by blast
  qed
  then obtain k :: int where k: "x / q = of_int k" by blast
  then have r: "q * of_int (round_ties_even (x / q)) = x"
    using q by (simp add: field_simps)
  have "\<bar>x\<bar> < 2 ^ 1024"
  proof -
    have "\<bar>x\<bar> \<le> 2 ^ 53" using x53 by (simp add: pow2_def)
    also have "\<dots> < (2::real) ^ 1024" by (rule power_strict_increasing) simp_all
    finally show ?thesis .
  qed
  moreover have "pow2 (max (binade x) (- 1022) - 52) = q"
    using e0 by (simp add: q_def e_def max_def)
  ultimately have "to_double x = Fin x"
    using nz r by (simp add: to_double_def Let_def)
  then show ?thesis by (simp add: x_def)
qed

lemma to_double_numeral [simp]:
  "numeral k \<le> (9007199254740992 :: int) \<Longrightarrow> to_double (numeral k) = Fin (numeral k)"
  using to_double_of_int [of "numeral k"] by simp

lemma to_double_neg_numeral [simp]:
  "numeral k \<le> (9007199254740992 :: int) \<Longrightarrow> to_double (- numeral k) = Fin (- numeral k)"
  using to_double_of_int [of "- numeral k"] by simp

lemma to_double_one [simp]: "to_double 1 = Fin 1"
  using to_double_of_int [of 1] by simp

lemma to_double_zero [simp]: "to_double 0 = Fin 0"
  by (simp add: to_double_def)

text \<open>
  Two well-known roundings: one tenth is no double, and \<^verbatim>\<open>0.1 + 0.2\<close> is
  \<^verbatim>\<open>0.30000000000000004\<close>.
\<close>

lemma to_double_tenth: "to_double (1 / 10) = Fin (3602879701896397 / 2 ^ 55)"
  by (rule to_double_normal [where e = "- 4"]) (simp_all add: pow2_def round_ties_even_def)

lemma to_double_three_tenths:
  "jadd (Fin (3602879701896397 / 2 ^ 55)) (Fin (3602879701896397 / 2 ^ 54))
     = Fin (5404319552844596 / 2 ^ 54)"
proof -
  have "to_double (3602879701896397 / 2 ^ 55 + 3602879701896397 / 2 ^ 54)
          = Fin (5404319552844596 / 2 ^ 54)"
    by (rule to_double_normal [where e = "- 2"]) (simp_all add: pow2_def round_ties_even_def)
  then show ?thesis by simp
qed


section \<open>Unfolding a run\<close>

lemmas run_simps =
  run_def step_def start_def mount_def rerender_def hydration_effect_def hydrate_try_def
  load_expenses_block_def load_budget_block_def sort_by_date_def
  save_expenses_effect_def save_budget_effect_def month_effect_def monthOptions_def
  render_raises_def render_def sortedExpenses_def
  initial_state_def handleDelete_def handleBudgetChange_def
  JSON_stringify_def stringify_expense_def JSON_parse_array_def keep_item_def expense_of_def
  truthy_id_def Array_sort_def by_date_descending_def slice_0_7_def startsWith_def str_def
  String_def Number_def isNaN_def Let_def

lemmas example_defs =
  env_june_def rent_def coffee_def store_rent_def form_june_def rent_then_coffee_def
  coffee_then_rent_def empty_store_def store_with_null_def store_mixed_def store_ascending_def
  snack_def store_negative_budget_def june_2024_def mid_june_def
  refund_def store_refund_def purchase_def stamp_def stamp'_def vet_def store_vet_def
  undated_def store_undated_def store_twice_def


section \<open>The error of one rounding\<close>


lemma pow2_nonneg [simp]: "0 \<le> pow2 e"
  by (simp add: less_imp_le)




section \<open>Submitting the form\<close>

lemma valid_amount_iff: "(\<not> isNaN x \<and> \<not> jle x (Fin 0)) \<longleftrightarrow> jlt (Fin 0) x"
  by (cases x) (auto simp: isNaN_def jlt_def)

lemma messages_differ:
  "EmptyDescription \<noteq> InvalidAmount" "EmptyDescription \<noteq> []" "InvalidAmount \<noteq> []"
  by (simp_all add: EmptyDescription_def InvalidAmount_def str_def)

lemma trim_ends:
  "trim s = [] \<or> (\<not> is_space (hd (trim s)) \<and> \<not> is_space (last (trim s)))"
proof (cases "dropWhile is_space s = []")
  case True
  have "trim s = []" by (simp only: trim_def True) simp
  then show ?thesis by simp
next
  case False
  define t where "t = dropWhile is_space s"
  define u where "u = dropWhile is_space (rev t)"
  have t: "t \<noteq> []" "\<not> is_space (hd t)"
    using False hd_dropWhile [of is_space s] by (simp_all add: t_def)
  show ?thesis
  proof (cases "u = []")
    case True
    then show ?thesis by (simp add: trim_def t_def u_def)
  next
    case un: False
    have hu: "\<not> is_space (hd u)"
      using un hd_dropWhile [of is_space "rev t"] by (simp add: u_def)
    have "\<exists>p. rev t = p @ u" unfolding u_def
      by (metis takeWhile_dropWhile_id)
    then obtain p where p: "rev t = p @ u" by blast
    then have "t = rev u @ rev p" by (metis rev_append rev_rev_ident)
    moreover have "rev u \<noteq> []" using un by simp
    ultimately have "hd (rev u) = hd t" by simp
    then have "\<not> is_space (hd (rev u))" using t by simp
    moreover have "last (rev u) = hd u" using un by (simp add: last_rev)
    moreover have "trim s = rev u" by (simp add: trim_def t_def u_def)
    ultimately show ?thesis using hu by simp
  qed
qed

lemma toFixed2_hundredths:
  assumes "\<bar>v\<bar> < 10 ^ 21"
  shows "\<exists>n::int. Number_toFixed2 (Fin v) = to_double (of_int n / 100)
                 \<and> \<bar>of_int n / 100 - v\<bar> \<le> 1 / 200"
proof -
  define m where "m = \<lfloor>\<bar>v\<bar> * 100 + 1 / 2\<rfloor>"
  have b: "of_int m \<le> \<bar>v\<bar> * 100 + 1 / 2" "\<bar>v\<bar> * 100 + 1 / 2 < of_int m + 1"
    unfolding m_def by linarith+
  define n where "n = (if v < 0 then - m else m)"
  have "Number_toFixed2 (Fin v) = to_double (of_int n / 100)"
    using assms by (simp add: Number_toFixed2_def Let_def m_def n_def)
  moreover have "\<bar>of_int n / 100 - v\<bar> \<le> 1 / 200"
    using b by (auto simp: n_def abs_if split: if_splits)
  ultimately show ?thesis by blast
qed

text \<open>A double of magnitude \<open>2\<^sup>5\<^sup>3\<close> or more is an integer.\<close>

lemma double_large_integer:
  assumes d: "to_double v = Fin v" and big: "2 ^ 53 \<le> \<bar>v\<bar>"
  shows "\<exists>n::int. v = of_int n"
proof -
  have nz: "v \<noteq> 0" using big by auto
  define e where "e = binade v"
  have "pow2 53 \<le> \<bar>v\<bar>" using big by (simp add: pow2_def)
  also have "\<bar>v\<bar> < pow2 (e + 1)" unfolding e_def by (rule binade_upper [OF nz])
  finally have "53 < e + 1" by (simp only: pow2_less_iff)
  then have e: "53 \<le> e" by simp
  define q where "q = pow2 (max e (- 1022) - 52)"
  define r where "r = q * of_int (round_ties_even (v / q))"
  have "to_double v = (if 2 ^ 1024 \<le> \<bar>r\<bar> then (if 0 < v then PInf else NInf) else Fin r)"
    using nz by (simp add: to_double_def Let_def r_def q_def e_def)
  with d have vr: "v = r" by (auto split: if_splits)
  have "max e (- 1022) - 52 = e - 52" using e by simp
  then have "q = of_int (2 ^ nat (e - 52))" using e by (simp add: q_def pow2_of_nat)
  then have "r = of_int (2 ^ nat (e - 52) * round_ties_even (v / q))" by (simp add: r_def)
  with vr show ?thesis by blast
qed

lemma toFixed2_double:
  assumes "to_double v = Fin v"
  shows "\<exists>n::int. Number_toFixed2 (Fin v) = to_double (of_int n / 100)
                 \<and> \<bar>of_int n / 100 - v\<bar> \<le> 1 / 200"
proof (cases "\<bar>v\<bar> < 10 ^ 21")
  case True
  then show ?thesis by (rule toFixed2_hundredths)
next
  case False
  then have big: "10 ^ 21 \<le> \<bar>v\<bar>" by simp
  have "(2::real) ^ 53 \<le> 10 ^ 21" by simp
  with big have "2 ^ 53 \<le> \<bar>v\<bar>" by linarith
  from double_large_integer [OF assms this] obtain n :: int where n: "v = of_int n" by blast
  have "Number_toFixed2 (Fin v) = Fin v" using big by (simp add: Number_toFixed2_def)
  also have "\<dots> = to_double (of_int (100 * n) / 100)" using assms n by simp
  finally have "Number_toFixed2 (Fin v) = to_double (of_int (100 * n) / 100)" .
  moreover have "\<bar>of_int (100 * n) / 100 - v\<bar> \<le> 1 / 200" using n by simp
  ultimately show ?thesis by blast
qed

lemma to_double_4_5: "to_double (9 / 2) = Fin (9 / 2)"
  by (rule to_double_normal [where e = 2]) (simp_all add: pow2_def round_ties_even_def)

lemma toFixed2_4_5: "Number_toFixed2 (Fin (9 / 2)) = Fin (9 / 2)"
  by (simp add: Number_toFixed2_def to_double_4_5)

lemma handleSubmit_valid:
  assumes "trim (description_input s) \<noteq> []" and "jlt (Fin 0) (Number (amount_input s))"
  shows "expenses (handleSubmit uuid s) =
           \<lparr> expense_id = Id uuid,
             description = trim (description_input s),
             category = category_name (category_input s),
             amount = Number_toFixed2 (Number (amount_input s)),
             date = Some (date_input s),
             notes_opt = (if trim (notes_input s) = [] then None
                          else Some (trim (notes_input s))) \<rparr> # expenses s"
proof -
  from assms(2)
  have "\<not> isNaN (Number (amount_input s))" "\<not> jle (Number (amount_input s)) (Fin 0)"
    using valid_amount_iff by blast+
  then show ?thesis using assms(1) by (simp add: handleSubmit_def Let_def)
qed


lemma submit_builds_iff:
  "submit_builds s \<longleftrightarrow> trim (description_input s) \<noteq> [] \<and> jlt (Fin 0) (Number (amount_input s))"
  using valid_amount_iff [of "Number (amount_input s)"] by (auto simp: submit_builds_def)

lemma handleSubmit_fields [simp]:
  "budget (handleSubmit uuid s) = budget s"
  "isReady (handleSubmit uuid s) = isReady s"
  by (simp_all add: handleSubmit_def Let_def)

text \<open>
  C5, as the claim states it, fails: with a description of a space and a no-break space
  and the amount text \<^verbatim>\<open>"0"\<close>, which is a number not above \<open>0\<close>, the message is that of the
  empty description, not that of the invalid amount.
\<close>

theorem validate_invalid_amount_counterexample:
  "jle (Number (amount_input form_blank_zero)) (Fin 0)
   \<and> error (handleSubmit (sample_uuid 0) form_blank_zero) = EmptyDescription
   \<and> EmptyDescription \<noteq> InvalidAmount"
  by (simp add: handleSubmit_def form_blank_zero_def form_june_def initial_state_def isNaN_def
      Number_def trim_def is_space_def messages_differ)

text \<open>
  C5, amended. \<^verbatim>\<open>handleSubmit\<close> fails with \<open>EmptyDescription\<close> exactly when the trimmed
  description is empty; it fails with \<open>InvalidAmount\<close> exactly when the trimmed description
  is not empty and the amount is \<^verbatim>\<open>NaN\<close> or at most \<open>0\<close>; and whenever it leaves a message,
  the expenses and the budget are what they were.
\<close>

theorem validate_failures:
  "(error (handleSubmit uuid s) = EmptyDescription \<longleftrightarrow> trim (description_input s) = [])
   \<and> (error (handleSubmit uuid s) = InvalidAmount \<longleftrightarrow>
        trim (description_input s) \<noteq> [] \<and>
        (isNaN (Number (amount_input s)) \<or> jle (Number (amount_input s)) (Fin 0)))
   \<and> (error (handleSubmit uuid s) \<noteq> [] \<longrightarrow>
        expenses (handleSubmit uuid s) = expenses s \<and> budget (handleSubmit uuid s) = budget s)"
  by (auto simp: handleSubmit_def Let_def messages_differ messages_differ [symmetric])

theorem validate_failures_witness:
  "error (handleSubmit (sample_uuid 0) form_minus_five) = InvalidAmount
   \<and> trim (description_input form_minus_five) \<noteq> []
   \<and> jle (Number (amount_input form_minus_five)) (Fin 0)
   \<and> error (handleSubmit (sample_uuid 0) form_minus_five) \<noteq> []
   \<and> expenses (handleSubmit (sample_uuid 0) form_minus_five) = [rent]
   \<and> budget (handleSubmit (sample_uuid 0) form_minus_five) = Fin 2000"
  using validate_failures [of "sample_uuid 0" form_minus_five]
  by (simp add: form_minus_five_def form_june_def initial_state_def isNaN_def Number_def
      trim_def is_space_def messages_differ str_def)

section \<open>Sorting and hydration\<close>

lemma localeCompare_total: "localeCompare a b \<le> 0 \<or> localeCompare b a \<le> 0"
  by (induction a b rule: localeCompare.induct) auto

lemma localeCompare_Cons_le:
  "localeCompare (x # xs) (y # ys) \<le> 0 \<longleftrightarrow>
     x < y \<or> (x = y \<and> localeCompare xs ys \<le> 0)"
  by auto

lemma localeCompare_trans:
  "localeCompare a b \<le> 0 \<Longrightarrow> localeCompare b c \<le> 0 \<Longrightarrow> localeCompare a c \<le> 0"
proof (induction a b arbitrary: c rule: localeCompare.induct)
  case 1
  then show ?case by simp
next
  case (2 y ys)
  then show ?case by (cases c) simp_all
next
  case (3 x xs)
  then show ?case by simp
next
  case (4 x xs y ys)
  show ?case
  proof (cases c)
    case Nil
    with "4.prems" show ?thesis by simp
  next
    case (Cons z zs)
    from "4.prems"(1)
    have xy: "x < y \<or>
              (x = y \<and> localeCompare xs ys \<le> 0)"
      by (simp only: localeCompare_Cons_le)
    from "4.prems"(2) Cons
    have yz: "y < z \<or>
              (y = z \<and> localeCompare ys zs \<le> 0)"
      by (simp only: localeCompare_Cons_le)
    have "x < z \<or>
          (x = z \<and> localeCompare xs zs \<le> 0)"
    proof (cases "x = y \<and> y = z")
      case True
      with xy yz have "localeCompare xs ys \<le> 0" "localeCompare ys zs \<le> 0" by auto
      with True "4.IH" [of zs] show ?thesis by simp
    next
      case False
      with xy yz show ?thesis by linarith
    qed
    then show ?thesis unfolding Cons by (simp only: localeCompare_Cons_le)
  qed
qed

lemma set_insert_sorted [simp]: "set (insert_sorted cmp x ys) = insert x (set ys)"
  by (induction ys) auto

lemma mset_insert_sorted [simp]: "mset (insert_sorted cmp x ys) = add_mset x (mset ys)"
  by (induction ys) auto

lemma mset_Array_sort [simp]: "mset (Array_sort cmp xs) = mset xs"
  by (induction xs) (simp_all add: Array_sort_def)

lemma set_Array_sort [simp]: "set (Array_sort cmp xs) = set xs"
  by (induction xs) (simp_all add: Array_sort_def)

lemma sorted_insert_sorted_on:
  assumes tot: "\<And>a b. P a \<Longrightarrow> P b \<Longrightarrow> cmp a b \<le> 0 \<or> cmp b a \<le> 0"
    and tr: "\<And>a b c. P a \<Longrightarrow> P b \<Longrightarrow> P c \<Longrightarrow> cmp a b \<le> 0 \<Longrightarrow> cmp b c \<le> 0 \<Longrightarrow> cmp a c \<le> 0"
  shows "P x \<Longrightarrow> \<forall>y\<in>set ys. P y \<Longrightarrow> sorted_wrt (\<lambda>a b. cmp a b \<le> 0) ys \<Longrightarrow>
         sorted_wrt (\<lambda>a b. cmp a b \<le> 0) (insert_sorted cmp x ys)"
proof (induction ys)
  case Nil
  then show ?case by simp
next
  case (Cons y ys)
  show ?case
  proof (cases "cmp x y \<le> 0")
    case True
    have "cmp x z \<le> 0" if "z \<in> set ys" for z
    proof -
      have "cmp y z \<le> 0" using Cons.prems(3) that by simp
      moreover have "P z" "P y" using Cons.prems(2) that by simp_all
      ultimately show ?thesis using tr [of x y z] True Cons.prems(1) by blast
    qed
    then show ?thesis using True Cons.prems by simp
  next
    case False
    then have "cmp y x \<le> 0" using tot [of x y] Cons.prems by auto
    then show ?thesis using False Cons by auto
  qed
qed

lemma sorted_Array_sort_on:
  assumes "\<And>a b. P a \<Longrightarrow> P b \<Longrightarrow> cmp a b \<le> 0 \<or> cmp b a \<le> 0"
    and "\<And>a b c. P a \<Longrightarrow> P b \<Longrightarrow> P c \<Longrightarrow> cmp a b \<le> 0 \<Longrightarrow> cmp b c \<le> 0 \<Longrightarrow> cmp a c \<le> 0"
  shows "\<forall>x\<in>set xs. P x \<Longrightarrow> sorted_wrt (\<lambda>a b. cmp a b \<le> 0) (Array_sort cmp xs)"
proof (induction xs)
  case Nil
  then show ?case by (simp add: Array_sort_def)
next
  case (Cons x xs)
  have px: "P x" and pxs: "\<forall>y\<in>set (Array_sort cmp xs). P y"
    using Cons.prems by simp_all
  have ih: "sorted_wrt (\<lambda>a b. cmp a b \<le> 0) (Array_sort cmp xs)"
    using Cons by simp
  have "sorted_wrt (\<lambda>a b. cmp a b \<le> 0) (insert_sorted cmp x (Array_sort cmp xs))"
    by (rule sorted_insert_sorted_on [of P cmp, OF assms(1) assms(2) px pxs ih])
  then show ?case by (simp add: Array_sort_def)
qed



lemma has_text_date: "date e \<noteq> None \<Longrightarrow> \<exists>x. date e = Some x"
  by (cases "date e") simp_all

lemma date_descending_sort:
  assumes "text_dates es"
  shows "date_descending (Array_sort by_date_descending es)"
proof -
  let ?P = "\<lambda>e. date e \<noteq> None"
  have all: "\<forall>x\<in>set es. ?P x" using assms by (simp add: text_dates_def list_all_iff)
  have tot: "by_date_descending a b \<le> 0 \<or> by_date_descending b a \<le> 0" for a b
    using localeCompare_total [of "the (date b)" "the (date a)"]
    by (auto simp: by_date_descending_def split: option.splits)
  have tr: "by_date_descending a c \<le> 0"
    if "?P a" "?P b" "?P c" "by_date_descending a b \<le> 0" "by_date_descending b c \<le> 0"
    for a b c
  proof -
    from that(1-3) obtain x y z where d: "date a = Some x" "date b = Some y" "date c = Some z"
      using has_text_date by blast
    with that(4,5) have "localeCompare y x \<le> 0" "localeCompare z y \<le> 0"
      by (simp_all add: by_date_descending_def)
    then have "localeCompare z x \<le> 0" using localeCompare_trans by blast
    with d show ?thesis by (simp add: by_date_descending_def)
  qed
  have s: "sorted_wrt (\<lambda>a b. by_date_descending a b \<le> 0) (Array_sort by_date_descending es)"
    using sorted_Array_sort_on [of ?P by_date_descending es] tot tr all by blast
  have "later_or_same a b"
    if "a \<in> set (Array_sort by_date_descending es)" "b \<in> set (Array_sort by_date_descending es)"
       "by_date_descending a b \<le> 0" for a b
  proof -
    from that(1,2) all obtain x y where "date a = Some x" "date b = Some y"
      using has_text_date by fastforce
    with that(3) show ?thesis by (simp add: later_or_same_def by_date_descending_def)
  qed
  then show ?thesis
    unfolding date_descending_def using sorted_wrt_mono_rel [OF _ s] by blast
qed



lemma filter_items_null: "Null_element \<in> set els \<Longrightarrow> filter_items els = Inl TypeError"
proof (induction els)
  case Nil
  then show ?case by simp
next
  case (Cons el els)
  then show ?case by (cases el) (auto simp: keep_item_def split: sum.splits)
qed

lemma filter_items_no_null:
  "Null_element \<notin> set els \<Longrightarrow> filter_items els = Inr (kept_of els)"
proof (induction els)
  case Nil
  then show ?case by (simp add: kept_of_def)
next
  case (Cons el els)
  then show ?case by (cases el) (auto simp: keep_item_def well_formed_def kept_of_def)
qed

lemma hydration_effect_total: "\<exists>s'. hydration_effect ev st s = Inr s'"
  by (auto simp: hydration_effect_def split: sum.splits)

lemma render_initial: "\<not> render_raises ev (initial_state ev)"
  by (simp add: render_raises_def render_def monthOptions_def initial_state_def
      sortedExpenses_def Array_sort_def)

lemma month_effect_fields [simp]:
  "expenses (month_effect ev s) = expenses s"
  "budget (month_effect ev s) = budget s"
  "isReady (month_effect ev s) = isReady s"
  by (simp_all add: month_effect_def split: sum.splits)

lemma rerender_fields:
  "expenses (app_state (rerender ev prev cur n w)) = expenses cur"
  "budget (app_state (rerender ev prev cur n w)) = budget cur"
  "isReady (app_state (rerender ev prev cur n w)) = isReady cur"
  by (simp_all add: rerender_def Let_def)

lemma mounted_eq:
  assumes "hydration_effect ev st (initial_state ev) = Inr s1"
  shows "expenses (mounted ev st) = expenses s1" and "budget (mounted ev st) = budget s1"
    and "isReady (mounted ev st) = isReady s1"
  using assms render_initial [of ev]
  by (simp_all add: mounted_def mount_def start_def rerender_fields Let_def)


lemma sort_by_date_text:
  assumes "text_dates kept"
  shows "sort_by_date ev kept = Inr (Array_sort by_date_descending kept)"
proof (cases kept)
  case Nil
  then show ?thesis by (simp add: sort_by_date_def Array_sort_def)
next
  case (Cons e es)
  show ?thesis
  proof (cases es)
    case Nil
    with Cons show ?thesis by (simp add: sort_by_date_def Array_sort_def)
  next
    case (Cons e' es')
    with \<open>kept = e # es\<close> assms show ?thesis by (simp add: sort_by_date_def text_dates_def)
  qed
qed

lemma sort_by_date_none:
  assumes "2 \<le> length kept" and "no_text_dates kept"
  shows "sort_by_date ev kept = Inl TypeError"
proof -
  obtain e es where k: "kept = e # es" using assms(1) by (cases kept) auto
  with assms(2) have "date e = None" by (simp add: no_text_dates_def)
  with k have "\<not> list_all (\<lambda>e. date e \<noteq> None) kept" by simp
  with assms show ?thesis by (simp add: sort_by_date_def no_text_dates_def)
qed

lemma sort_by_date_mixed: "mixed_dates kept \<Longrightarrow> sort_by_date ev kept = sort_mixed ev kept"
  by (simp add: sort_by_date_def mixed_dates_def text_dates_def no_text_dates_def)

lemma sort_by_date_short: "length kept < 2 \<Longrightarrow> sort_by_date ev kept = Inr kept"
  by (simp add: sort_by_date_def)

lemma load_expenses_block_cases:
  "load_expenses_block ev st s =
     (case stored_expenses ev st of
        None \<Rightarrow> Inr s
      | Some (Inl x) \<Rightarrow> Inl x
      | Some (Inr l) \<Rightarrow> Inr (s\<lparr>expenses := l\<rparr>))"
  by (simp add: load_expenses_block_def stored_expenses_def JSON_parse_array_def
      filter_items_null filter_items_no_null
      split: option.splits expenses_text.splits sum.splits)

lemma load_expenses_block_budget:
  "load_expenses_block ev st s = Inr s1 \<Longrightarrow> budget s1 = budget s"
  by (auto simp: load_expenses_block_cases split: option.splits sum.splits)

lemma load_budget_block_expenses [simp]: "expenses (load_budget_block st s) = expenses s"
  by (simp add: load_budget_block_def Let_def split: option.splits numeric_text.splits)

lemma load_budget_block_budget:
  "budget (load_budget_block st s) =
     (case budget_key st of
        Some (Text_number b) \<Rightarrow> if isNaN b then budget s else b
      | _ \<Rightarrow> budget s)"
  by (simp add: load_budget_block_def Number_def Let_def
      split: option.splits numeric_text.splits)

text \<open>What the hydration effect leaves in \<^verbatim>\<open>expenses\<close> and in \<^verbatim>\<open>budget\<close>, case by case.\<close>

lemma mounted_expenses:
  assumes "window_defined ev"
  shows "expenses (mounted ev st) =
     (case stored_expenses ev st of Some (Inr l) \<Rightarrow> l | _ \<Rightarrow> [])"
proof -
  obtain s1 where s1: "hydration_effect ev st (initial_state ev) = Inr s1"
    using hydration_effect_total by blast
  have "expenses s1 = (case stored_expenses ev st of Some (Inr l) \<Rightarrow> l | _ \<Rightarrow> [])"
    using s1 assms
    by (auto simp: hydration_effect_def hydrate_try_def load_expenses_block_cases
        initial_state_def split: option.splits sum.splits if_splits)
  then show ?thesis using mounted_eq(1) [OF s1] by simp
qed

lemma mounted_budget:
  assumes "window_defined ev"
  shows "budget (mounted ev st) =
     (case stored_expenses ev st of
        Some (Inl x) \<Rightarrow> Fin 2000
      | _ \<Rightarrow> (case budget_key st of
                Some (Text_number b) \<Rightarrow> if isNaN b then Fin 2000 else b
              | _ \<Rightarrow> Fin 2000))"
proof -
  obtain s1 where s1: "hydration_effect ev st (initial_state ev) = Inr s1"
    using hydration_effect_total by blast
  have i: "budget (initial_state ev) = Fin 2000" by (simp add: initial_state_def)
  have "budget s1 =
     (case stored_expenses ev st of
        Some (Inl x) \<Rightarrow> Fin 2000
      | _ \<Rightarrow> (case budget_key st of
                Some (Text_number b) \<Rightarrow> if isNaN b then Fin 2000 else b
              | _ \<Rightarrow> Fin 2000))"
    using s1 assms i
    by (auto simp: hydration_effect_def hydrate_try_def load_expenses_block_cases
        load_budget_block_budget split: option.splits sum.splits if_splits numeric_text.splits)
  then show ?thesis using mounted_eq(2) [OF s1] by simp
qed

lemma mounted_no_window:
  assumes "\<not> window_defined ev"
  shows "expenses (mounted ev st) = []" and "budget (mounted ev st) = Fin 2000"
  using mounted_eq(1,2) [of ev st "initial_state ev"] assms
  by (simp_all add: hydration_effect_def initial_state_def)


lemma stored_expenses_raises:
  "(\<exists>x. stored_expenses ev st = Some (Inl x)) = load_raises ev st"
proof (cases "expenses_key st")
  case None
  then show ?thesis by (simp add: stored_expenses_def load_raises_def)
next
  case (Some t)
  show ?thesis
  proof (cases t)
    case (Array_text els)
    let ?k = "kept_of els"
    consider (alltext) "text_dates ?k" | (few) "\<not> text_dates ?k" "length ?k < 2"
      | (notext) "2 \<le> length ?k" "no_text_dates ?k" | (mixed) "mixed_dates ?k"
      unfolding mixed_dates_def by fastforce
    then have "(\<exists>x. sort_by_date ev ?k = Inl x) =
               ((2 \<le> length ?k \<and> no_text_dates ?k) \<or> (mixed_dates ?k \<and> isl (sort_mixed ev ?k)))"
    proof cases
      case alltext
      then have "\<not> mixed_dates ?k" by (simp add: mixed_dates_def)
      moreover have "\<not> (2 \<le> length ?k \<and> no_text_dates ?k)"
        using alltext by (cases ?k) (auto simp: text_dates_def no_text_dates_def)
      ultimately show ?thesis using alltext by (simp add: sort_by_date_text)
    next
      case few
      then show ?thesis by (simp add: sort_by_date_short mixed_dates_def)
    next
      case notext
      then have "\<not> mixed_dates ?k" by (simp add: mixed_dates_def)
      then show ?thesis using notext by (simp add: sort_by_date_none)
    next
      case mixed
      then show ?thesis
        by (cases "sort_mixed ev ?k") (auto simp: sort_by_date_mixed mixed_dates_def)
    qed
    with Some Array_text show ?thesis by (auto simp: stored_expenses_def load_raises_def)
  qed (simp_all add: Some stored_expenses_def load_raises_def)
qed

lemma stored_expenses_list:
  "(case stored_expenses ev st of Some (Inr l) \<Rightarrow> l | _ \<Rightarrow> []) =
     (case expenses_key st of
        Some (Array_text els) \<Rightarrow>
          if Null_element \<in> set els then []
          else if text_dates (kept_of els) then Array_sort by_date_descending (kept_of els)
          else if length (kept_of els) < 2 then kept_of els
          else if no_text_dates (kept_of els) then []
          else (case sort_mixed ev (kept_of els) of Inl x \<Rightarrow> [] | Inr l \<Rightarrow> l)
      | _ \<Rightarrow> [])"
proof (cases "expenses_key st")
  case None
  then show ?thesis by (simp add: stored_expenses_def)
next
  case (Some t)
  show ?thesis
  proof (cases t)
    case (Array_text els)
    let ?k = "kept_of els"
    have "(case sort_by_date ev ?k of Inl x \<Rightarrow> [] | Inr l \<Rightarrow> l) =
          (if text_dates ?k then Array_sort by_date_descending ?k
           else if length ?k < 2 then ?k
           else if no_text_dates ?k then []
           else (case sort_mixed ev ?k of Inl x \<Rightarrow> [] | Inr l \<Rightarrow> l))"
      by (simp add: sort_by_date_text sort_by_date_short sort_by_date_none sort_by_date_mixed
          mixed_dates_def)
    with Some Array_text show ?thesis
      by (simp add: stored_expenses_def split: sum.splits)
  qed (simp_all add: Some stored_expenses_def)
qed

lemma mounted_budget_cases:
  assumes "window_defined ev"
  shows "budget (mounted ev st) =
     (if load_raises ev st then Fin 2000
      else (case budget_key st of
              Some (Text_number b) \<Rightarrow> if isNaN b then Fin 2000 else b
            | _ \<Rightarrow> Fin 2000))"
proof (cases "load_raises ev st")
  case True
  then obtain x where "stored_expenses ev st = Some (Inl x)"
    using stored_expenses_raises [of ev st] by blast
  then show ?thesis using True by (simp add: mounted_budget [OF assms])
next
  case False
  then have "\<nexists>x. stored_expenses ev st = Some (Inl x)"
    using stored_expenses_raises [of ev st] by blast
  then have "(case stored_expenses ev st of Some (Inl x) \<Rightarrow> Fin 2000 | _ \<Rightarrow> c) = c" for c :: jsnum
    by (auto split: option.splits sum.splits)
  then show ?thesis using False by (simp only: mounted_budget [OF assms] if_False)
qed

text \<open>
  C8, as the claim states it, fails: when the stored array holds the rent, which has a
  numeric amount and an id, and after it \<^verbatim>\<open>null\<close>, the filter raises on \<^verbatim>\<open>null\<close>, the
  exception is caught, and the rent is not kept. The stored budget of 1800 is skipped too.
\<close>

theorem hydration_null_counterexample:
  "keep_item (stringify_expense rent) = Inr True
   \<and> expenses (mounted env_june store_with_null) = []
   \<and> budget (mounted env_june store_with_null) = Fin 2000"
  by (simp add: mounted_def run_simps example_defs)

text \<open>
  C8, amended. The hydration effect never raises. The entries kept are the objects of the
  stored array with a numeric amount and a truthy id. When the array holds no \<^verbatim>\<open>null\<close> and
  every entry kept has a text as date, the collection is the entries kept, most recent date
  first; one entry kept alone is the collection whatever its date. The collection is empty
  when the stored text is absent, empty, not parseable, no array, an array holding \<^verbatim>\<open>null\<close>,
  or an array with two or more entries kept none of which has a text as date, on which the
  comparator of the sort raises. When only some of two or more entries kept have a text as
  date, the collection is what the host's sort returns, and empty when it raises. The
  budget is \<open>2000\<close> when reading the expenses raised, whatever budget is stored; otherwise it is the
  stored number, and \<open>2000\<close> when the stored budget is absent, empty or no number.
\<close>

theorem hydration_degrades:
  "(\<exists>s'. hydration_effect ev st s = Inr s')
   \<and> (window_defined ev \<longrightarrow>
        expenses (mounted ev st) =
          (case expenses_key st of
             Some (Array_text els) \<Rightarrow>
               if Null_element \<in> set els then []
               else if text_dates (kept_of els) then Array_sort by_date_descending (kept_of els)
               else if length (kept_of els) < 2 then kept_of els
               else if no_text_dates (kept_of els) then []
               else (case sort_mixed ev (kept_of els) of Inl x \<Rightarrow> [] | Inr l \<Rightarrow> l)
           | _ \<Rightarrow> [])
        \<and> budget (mounted ev st) =
            (if load_raises ev st then Fin 2000
             else (case budget_key st of
                     Some (Text_number b) \<Rightarrow> if isNaN b then Fin 2000 else b
                   | _ \<Rightarrow> Fin 2000)))
   \<and> (\<not> window_defined ev \<longrightarrow>
        expenses (mounted ev st) = [] \<and> budget (mounted ev st) = Fin 2000)"
  using hydration_effect_total [of ev st s] mounted_expenses [of ev st]
    stored_expenses_list [of ev st] mounted_budget_cases [of ev st] mounted_no_window [of ev st]
  by simp

theorem hydration_degrades_witness:
  "window_defined env_june
   \<and> kept_of [Object_element (undated (str ''h8'')), Object_element (undated (str ''i9''))]
       = [expense_of (undated (str ''h8'')), expense_of (undated (str ''i9''))]
   \<and> load_raises env_june store_undated
   \<and> expenses (mounted env_june store_undated) = []
   \<and> budget (mounted env_june store_undated) = Fin 2000
   \<and> \<not> load_raises env_june store_mixed
   \<and> expenses (mounted env_june store_mixed) = [rent]
   \<and> budget (mounted env_june store_mixed) = Fin 2000"
  using hydration_degrades [of env_june store_mixed "initial_state env_june"]
    hydration_degrades [of env_june store_undated "initial_state env_june"]
  by (simp add: example_defs well_formed_def stringify_expense_def expense_of_def kept_of_def
      truthy_id_def text_dates_def no_text_dates_def mixed_dates_def load_raises_def
      Array_sort_def Number_def isNaN_def str_def)


section \<open>What hydration gives back\<close>

lemma date_descending_short: "length es < 2 \<Longrightarrow> date_descending es"
proof (cases es)
  case Nil
  then show ?thesis by (simp add: date_descending_def)
next
  case (Cons e es')
  assume "length es < 2"
  with Cons have "es' = []" by simp
  with Cons show ?thesis by (simp add: date_descending_def)
qed

lemma mounted_descending:
  assumes "\<not> mixed_store st"
  shows "date_descending (expenses (mounted ev st))"
proof (cases "window_defined ev")
  case False
  then show ?thesis by (simp add: mounted_no_window date_descending_def)
next
  case True
  have e: "expenses (mounted ev st) =
     (case expenses_key st of
        Some (Array_text els) \<Rightarrow>
          if Null_element \<in> set els then []
          else if text_dates (kept_of els) then Array_sort by_date_descending (kept_of els)
          else if length (kept_of els) < 2 then kept_of els
          else if no_text_dates (kept_of els) then []
          else (case sort_mixed ev (kept_of els) of Inl x \<Rightarrow> [] | Inr l \<Rightarrow> l)
      | _ \<Rightarrow> [])"
    by (simp only: mounted_expenses [OF True] stored_expenses_list)
  have nil: "date_descending []" by (simp add: date_descending_def)
  show ?thesis
  proof (cases "expenses_key st")
    case None
    with e nil show ?thesis by simp
  next
    case (Some t)
    show ?thesis
    proof (cases t)
      case (Array_text els)
      have nm: "Null_element \<notin> set els \<Longrightarrow> \<not> mixed_dates (kept_of els)"
        using assms Some Array_text by (simp add: mixed_store_def)
      show ?thesis
      proof (cases "Null_element \<in> set els")
        case True
        with e Some Array_text nil show ?thesis by simp
      next
        case False
        then have "\<not> mixed_dates (kept_of els)" by (rule nm)
        then consider "text_dates (kept_of els)"
          | "\<not> text_dates (kept_of els)" "length (kept_of els) < 2"
          | "\<not> text_dates (kept_of els)" "\<not> length (kept_of els) < 2" "no_text_dates (kept_of els)"
          unfolding mixed_dates_def by fastforce
        then show ?thesis
        proof cases
          case 1
          with e Some Array_text False show ?thesis by (simp add: date_descending_sort)
        next
          case 2
          with e Some Array_text False show ?thesis by (simp add: date_descending_short)
        next
          case 3
          with e Some Array_text False nil show ?thesis by simp
        qed
      qed
    qed (use e Some nil in simp_all)
  qed
qed

text \<open>
  C10. Right after hydration the expenses are in descending order of date, most recent
  first, whatever the store held and in whatever order, provided it is not left to the
  host what the sort does (of two or more entries kept, only some have a text as date).
  When the stored array is read and every entry kept has a text as date, the collection is
  the sorted rearrangement of the entries kept.
\<close>

theorem hydration_sorts_by_date:
  "(\<not> mixed_store st \<longrightarrow> date_descending (expenses (mounted ev st)))
   \<and> (\<forall>els. window_defined ev \<and> expenses_key st = Some (Array_text els)
             \<and> Null_element \<notin> set els \<and> text_dates (kept_of els) \<longrightarrow>
          expenses (mounted ev st) = Array_sort by_date_descending (kept_of els)
          \<and> mset (expenses (mounted ev st)) = mset (kept_of els))"
proof (intro conjI allI impI)
  assume "\<not> mixed_store st"
  then show "date_descending (expenses (mounted ev st))" by (rule mounted_descending)
next
  fix els
  assume a: "window_defined ev \<and> expenses_key st = Some (Array_text els)
             \<and> Null_element \<notin> set els \<and> text_dates (kept_of els)"
  then show "expenses (mounted ev st) = Array_sort by_date_descending (kept_of els)"
    by (simp add: mounted_expenses stored_expenses_list)
  then show "mset (expenses (mounted ev st)) = mset (kept_of els)"
    by (simp only: mset_Array_sort)
qed

theorem hydration_sorts_by_date_witness:
  "window_defined env_june
   \<and> \<not> mixed_store store_ascending
   \<and> expenses_key store_ascending = Some (Array_text [stringify_expense rent, stringify_expense coffee])
   \<and> Null_element \<notin> set [stringify_expense rent, stringify_expense coffee]
   \<and> kept_of [stringify_expense rent, stringify_expense coffee] = [rent, coffee]
   \<and> text_dates [rent, coffee]
   \<and> expenses (mounted env_june store_ascending) = [coffee, rent]
   \<and> date_descending [coffee, rent]"
  using hydration_sorts_by_date [of store_ascending env_june]
  by (simp add: example_defs well_formed_def stringify_expense_def expense_of_def kept_of_def
      truthy_id_def text_dates_def no_text_dates_def mixed_dates_def mixed_store_def
      Array_sort_def by_date_descending_def date_descending_def later_or_same_def str_def)








lemma rerender_uuid_calls [simp]: "uuid_calls (rerender ev prev cur n w) = uuid_calls w"
  by (simp add: rerender_def save_expenses_effect_def save_budget_effect_def Let_def)

lemma step_Submit:
  assumes "\<not> down w"
  shows "expenses (app_state (step ev w Submit)) =
           expenses (handleSubmit (randomUUID ev (uuid_calls w)) (app_state w))"
    and "uuid_calls (step ev w Submit) =
           (if submit_builds (app_state w) then Suc (uuid_calls w) else uuid_calls w)"
  using assms by (simp_all add: step_def rerender_fields Let_def)

lemma issued_fresh:
  assumes "never_repeats ev" and "issued ev n es"
  shows "Id (randomUUID ev n) \<notin> set (map expense_id es)"
proof
  assume "Id (randomUUID ev n) \<in> set (map expense_id es)"
  then obtain e where e: "e \<in> set es" "expense_id e = Id (randomUUID ev n)" by auto
  with assms(2) obtain k where k: "k < n" "expense_id e = Id (randomUUID ev k)"
    by (auto simp: issued_def list_all_iff)
  with e have "randomUUID ev k = randomUUID ev n" by simp
  with assms(1) have "k = n" by (simp add: never_repeats_def inj_eq)
  with k show False by simp
qed

lemma sample_uuid_inj: "inj sample_uuid"
proof (rule injI)
  fix m n assume "sample_uuid m = sample_uuid n"
  then have "length (sample_uuid m) = length (sample_uuid n)" by simp
  then show "m = n" by (simp add: sample_uuid_def)
qed

text \<open>
  C6. Submitting a valid request (the trimmed description is not empty, the amount is
  greater than \<open>0\<close>) puts one new record before the records there were, which stay as they
  are. The new record has the trimmed description (no white space at either end), the
  category and date of the form, the trimmed notes or none when they are empty, and the
  amount \<^verbatim>\<open>Number(parsedAmount.toFixed(2))\<close>: for a finite amount the double nearest to a
  multiple of \<open>0.01\<close> that is within \<open>0.005\<close> of the amount entered, and infinity for an
  infinite one. Its id is the text that a new call of the generator returns, the only
  call made; when the generator never repeats itself and the ids of the records there were
  came from its earlier calls, no record there was has this id.
\<close>

theorem add_admits_normalised_record:
  assumes "\<not> down w"
    and "trim (description_input (app_state w)) \<noteq> []"
    and "jlt (Fin 0) (Number (amount_input (app_state w)))"
  shows "expenses (app_state (step ev w Submit)) =
           \<lparr> expense_id = Id (randomUUID ev (uuid_calls w)),
             description = trim (description_input (app_state w)),
             category = category_name (category_input (app_state w)),
             amount = Number_toFixed2 (Number (amount_input (app_state w))),
             date = Some (date_input (app_state w)),
             notes_opt = (if trim (notes_input (app_state w)) = [] then None
                          else Some (trim (notes_input (app_state w)))) \<rparr>
           # expenses (app_state w)
         \<and> uuid_calls (step ev w Submit) = Suc (uuid_calls w)
         \<and> (never_repeats ev \<and> issued ev (uuid_calls w) (expenses (app_state w)) \<longrightarrow>
              Id (randomUUID ev (uuid_calls w)) \<notin> set (map expense_id (expenses (app_state w))))
         \<and> \<not> is_space (hd (trim (description_input (app_state w))))
         \<and> \<not> is_space (last (trim (description_input (app_state w))))
         \<and> (\<forall>v. Number (amount_input (app_state w)) = Fin v \<and> is_double (Fin v) \<longrightarrow>
              (\<exists>n::int. Number_toFixed2 (Fin v) = to_double (of_int n / 100)
                       \<and> \<bar>of_int n / 100 - v\<bar> \<le> 1 / 200))
         \<and> (Number (amount_input (app_state w)) = PInf \<longrightarrow> Number_toFixed2 PInf = PInf)"
proof (intro conjI allI impI)
  show "expenses (app_state (step ev w Submit)) =
           \<lparr> expense_id = Id (randomUUID ev (uuid_calls w)),
             description = trim (description_input (app_state w)),
             category = category_name (category_input (app_state w)),
             amount = Number_toFixed2 (Number (amount_input (app_state w))),
             date = Some (date_input (app_state w)),
             notes_opt = (if trim (notes_input (app_state w)) = [] then None
                          else Some (trim (notes_input (app_state w)))) \<rparr>
           # expenses (app_state w)"
    by (simp only: step_Submit(1) [OF assms(1)] handleSubmit_valid [OF assms(2,3)])
  show "uuid_calls (step ev w Submit) = Suc (uuid_calls w)"
    using assms(2,3) by (simp add: step_Submit(2) [OF assms(1)] submit_builds_iff)
  show "\<not> is_space (hd (trim (description_input (app_state w))))"
    and "\<not> is_space (last (trim (description_input (app_state w))))"
    using trim_ends [of "description_input (app_state w)"] assms(2) by simp_all
  show "Number_toFixed2 PInf = PInf" by (simp add: Number_toFixed2_def)
next
  assume "never_repeats ev \<and> issued ev (uuid_calls w) (expenses (app_state w))"
  then show "Id (randomUUID ev (uuid_calls w)) \<notin> set (map expense_id (expenses (app_state w)))"
    using issued_fresh by blast
next
  fix v assume v: "Number (amount_input (app_state w)) = Fin v \<and> is_double (Fin v)"
  then have "to_double v = Fin v" by (simp add: is_double_def)
  then show "\<exists>n::int. Number_toFixed2 (Fin v) = to_double (of_int n / 100)
                \<and> \<bar>of_int n / 100 - v\<bar> \<le> 1 / 200" by (rule toFixed2_double)
qed

theorem add_admits_normalised_record_witness:
  "\<not> down world_coffee
   \<and> trim (description_input (app_state world_coffee)) \<noteq> []
   \<and> jlt (Fin 0) (Number (amount_input (app_state world_coffee)))
   \<and> never_repeats env_june
   \<and> issued env_june (uuid_calls world_coffee) (expenses (app_state world_coffee))
   \<and> Number (amount_input (app_state world_coffee)) = Fin (9 / 2)
   \<and> is_double (Fin (9 / 2))
   \<and> expenses (app_state (step env_june world_coffee Submit)) =
       [\<lparr> expense_id = Id (sample_uuid 1), description = str ''Coffee'',
          category = str ''Food'', amount = Fin (9 / 2), date = Some (str ''2024-06-02''),
          notes_opt = None \<rparr>, rent_u]
   \<and> Id (sample_uuid 1) \<notin> set (map expense_id [rent_u])
   \<and> uuid_calls (step env_june world_coffee Submit) = 2"
proof -
  have 0: "\<not> down world_coffee" by (simp add: world_coffee_def)
  have 1: "trim (description_input (app_state world_coffee)) \<noteq> []"
    by (simp add: world_coffee_def form_coffee_def form_june_def trim_def is_space_def str_def)
  have 2: "jlt (Fin 0) (Number (amount_input (app_state world_coffee)))"
    by (simp add: world_coffee_def form_coffee_def form_june_def Number_def jlt_def)
  have 3: "never_repeats env_june"
    by (simp add: never_repeats_def env_june_def sample_uuid_inj)
  have 4: "issued env_june (uuid_calls world_coffee) (expenses (app_state world_coffee))"
    by (simp add: issued_def world_coffee_def rent_u_def env_june_def)
  have 5: "is_double (Fin (9 / 2))" by (simp add: is_double_def to_double_4_5)
  show ?thesis
    using add_admits_normalised_record [OF 0 1 2, of env_june] 0 1 2 3 4 5
    by (simp add: world_coffee_def form_coffee_def form_june_def initial_state_def
        env_june_def trim_def is_space_def Number_def toFixed2_4_5 str_def)
qed


section \<open>Saving waits for hydration\<close>

lemma load_first_append:
  "load_first ge gb ap (xs @ ys) =
     (load_first ge gb ap xs \<and>
      (case load_state ge gb ap xs of (a, b, c) \<Rightarrow> load_first a b c ys))"
proof (induction xs arbitrary: ge gb ap)
  case Nil
  then show ?case by simp
next
  case (Cons x xs)
  then show ?case by (cases x) auto
qed

lemma load_state_append:
  "load_state ge gb ap (xs @ ys) =
     (case load_state ge gb ap xs of (a, b, c) \<Rightarrow> load_state a b c ys)"
proof (induction xs arbitrary: ge gb ap)
  case Nil
  then show ?case by simp
next
  case (Cons x xs)
  then show ?case by (cases x) auto
qed

lemma month_effect_isReady: "isReady (month_effect ev cur) = isReady cur"
  by (simp add: month_effect_def split: sum.splits)

lemma save_expenses_effect_ops:
  assumes "load_first False False False (ops w)"
    and "isReady cur \<longrightarrow> load_state False False False (ops w) = (True, True, True)"
  shows "load_first False False False (ops (save_expenses_effect ev cur w))"
    and "load_state False False False (ops (save_expenses_effect ev cur w)) =
           load_state False False False (ops w)"
  using assms by (auto simp: save_expenses_effect_def load_first_append load_state_append)

lemma save_budget_effect_ops:
  assumes "load_first False False False (ops w)"
    and "isReady cur \<longrightarrow> load_state False False False (ops w) = (True, True, True)"
  shows "load_first False False False (ops (save_budget_effect ev cur w))"
    and "load_state False False False (ops (save_budget_effect ev cur w)) =
           load_state False False False (ops w)"
  using assms by (auto simp: save_budget_effect_def load_first_append load_state_append)

lemma rerender_ordered:
  assumes a: "load_first False False False (ops w)"
    and b: "isReady cur \<longrightarrow>
            (\<exists>ap. load_state False False False (ops w) = (True, True, ap) \<and> (isReady prev \<longrightarrow> ap))"
  shows "ordered (rerender ev prev cur na w)"
proof (cases "render_raises ev cur")
  case True
  then show ?thesis using a by (simp add: rerender_def ordered_def)
next
  case False
  define w0 where "w0 = (if isReady cur \<and> \<not> isReady prev
                then w\<lparr>ops := ops w @ [Hydration_applied]\<rparr> else w)"
  define w1 where "w1 = (if na \<or> isReady cur \<noteq> isReady prev
                then save_expenses_effect ev cur w0 else w0)"
  define w2 where "w2 = (if budget cur \<noteq> budget prev \<or> isReady cur \<noteq> isReady prev
                then save_budget_effect ev cur w1 else w1)"
  have f0: "load_first False False False (ops w0)"
    using a by (simp add: w0_def load_first_append split: prod.splits)
  have s0: "isReady cur \<longrightarrow> load_state False False False (ops w0) = (True, True, True)"
    using b by (auto simp: w0_def load_state_append)
  have f1: "load_first False False False (ops w1)"
    and s1: "isReady cur \<longrightarrow> load_state False False False (ops w1) = (True, True, True)"
    using save_expenses_effect_ops [OF f0 s0, of ev] f0 s0 by (simp_all add: w1_def)
  have f2: "load_first False False False (ops w2)"
    and s2: "isReady cur \<longrightarrow> load_state False False False (ops w2) = (True, True, True)"
    using save_budget_effect_ops [OF f1 s1, of ev] f1 s1 by (simp_all add: w2_def)
  have "rerender ev prev cur na w =
          w2\<lparr>app_state := month_effect ev cur,
             down := (month_effect ev cur \<noteq> cur \<and> render_raises ev (month_effect ev cur))\<rparr>"
    using False by (simp add: rerender_def w0_def w1_def w2_def Let_def)
  then show ?thesis using f2 s2 by (simp add: ordered_def month_effect_isReady)
qed

lemma handlers_isReady [simp]:
  "isReady (handleDelete i s) = isReady s"
  "isReady (handleBudgetChange v s) = isReady s"
  by (simp_all add: handleDelete_def handleBudgetChange_def)

lemma hydration_effect_isReady:
  "hydration_effect ev st s = Inr s' \<Longrightarrow> isReady s' \<Longrightarrow> window_defined ev \<or> isReady s"
  by (auto simp: hydration_effect_def split: if_splits sum.splits)

lemma saving_waits:
  "\<not> isReady s \<Longrightarrow> save_expenses_effect ev s w = w \<and> save_budget_effect ev s w = w"
  by (simp add: save_expenses_effect_def save_budget_effect_def)

lemma mount_unfold:
  "mount ev w =
     rerender ev (initial_state ev) (hydrated ev (storage w))
       (expenses (hydrated ev (storage w)) \<noteq> expenses (initial_state ev))
       ((if window_defined ev
         then w\<lparr>ops := ops w @ [GetItem_expenses, GetItem_budget]\<rparr> else w)\<lparr>down := False\<rparr>)"
proof -
  have n0: "\<not> isReady (initial_state ev)" by (simp add: initial_state_def)
  show ?thesis
    using render_initial [of ev] saving_waits [OF n0]
    by (simp add: mount_def hydrated_def Let_def)
qed

lemma hydrated_isReady: "isReady (hydrated ev st) = window_defined ev"
  by (auto simp: hydrated_def hydration_effect_def initial_state_def split: sum.splits)

lemma mount_ordered:
  assumes "load_first False False False (ops w)"
  shows "ordered (mount ev w)"
proof -
  define w1 where "w1 = (if window_defined ev
                then w\<lparr>ops := ops w @ [GetItem_expenses, GetItem_budget]\<rparr> else w)\<lparr>down := False\<rparr>"
  have f1: "load_first False False False (ops w1)"
    using assms by (simp add: w1_def load_first_append split: prod.splits)
  have r: "isReady (hydrated ev (storage w)) \<longrightarrow>
           (\<exists>ap. load_state False False False (ops w1) = (True, True, ap)
                 \<and> (isReady (initial_state ev) \<longrightarrow> ap))"
    by (auto simp: hydrated_isReady w1_def load_state_append initial_state_def split: prod.splits)
  show ?thesis
    unfolding mount_unfold w1_def [symmetric] using rerender_ordered [OF f1 r] .
qed

lemma step_ordered:
  assumes "ordered w"
  shows "ordered (step ev w e)"
proof (cases "e = Mount")
  case True
  then show ?thesis using mount_ordered assms by (simp add: step_def ordered_def)
next
  case nm: False
  show ?thesis
  proof (cases "down w")
    case True
    then show ?thesis using assms nm by (simp add: step_def)
  next
    case False
    have f: "load_first False False False (ops w)" using assms by (simp add: ordered_def)
    have r: "isReady cur \<longrightarrow>
             (\<exists>ap. load_state False False False (ops w) = (True, True, ap)
                   \<and> (isReady (app_state w) \<longrightarrow> ap))"
      if "isReady cur = isReady (app_state w)" for cur
      using assms False that by (auto simp: ordered_def)
    have go: "ordered (rerender ev (app_state w) cur na w)"
      if "isReady cur = isReady (app_state w)" for cur na
      by (rule rerender_ordered [OF f r [OF that]])
    have go': "ordered (rerender ev (app_state w) cur na (w\<lparr>uuid_calls := k\<rparr>))"
      if "isReady cur = isReady (app_state w)" for cur na k
    proof (rule rerender_ordered)
      show "load_first False False False (ops (w\<lparr>uuid_calls := k\<rparr>))" using f by simp
      show "isReady cur \<longrightarrow>
            (\<exists>ap. load_state False False False (ops (w\<lparr>uuid_calls := k\<rparr>)) = (True, True, ap)
                  \<and> (isReady (app_state w) \<longrightarrow> ap))"
        using r [OF that] by simp
    qed
    show ?thesis
    proof (cases e)
      case Mount
      with nm show ?thesis by simp
    next
      case Submit
      then show ?thesis using False go go' by (simp add: step_def Let_def)
    qed (use False go in \<open>simp_all add: step_def Let_def\<close>)
  qed
qed

lemma run_ordered: "ordered w \<Longrightarrow> ordered (run ev w es)"
  unfolding run_def
  by (induction es arbitrary: w) (simp_all add: step_ordered)

lemma mount_ops:
  "ops (mount ev (start ev st)) =
     (if window_defined ev
      then [GetItem_expenses, GetItem_budget] @
           (if render_raises ev (hydrated ev st) then []
            else [Hydration_applied,
                  SetItem_expenses (JSON_stringify (expenses (hydrated ev st))),
                  SetItem_budget (String (budget (hydrated ev st)))])
      else [])"
proof (cases "window_defined ev")
  case True
  have n0: "\<not> isReady (initial_state ev)" by (simp add: initial_state_def)
  have r: "isReady (hydrated ev st)" using True by (simp add: hydrated_isReady)
  show ?thesis
    using True n0 r
    by (simp add: mount_unfold start_def rerender_def save_expenses_effect_def
        save_budget_effect_def Let_def)
next
  case False
  then have h: "hydrated ev st = initial_state ev"
    by (simp add: hydrated_def hydration_effect_def)
  show ?thesis
    using False render_initial [of ev]
    by (simp add: mount_unfold start_def h rerender_def Let_def)
qed

text \<open>
  C9. In every run of the component, whatever the store holds and whatever the events are
  (events before the page is loaded and reloads included), no \<^verbatim>\<open>setItem\<close> is made before
  the load is complete: both \<^verbatim>\<open>getItem\<close> calls of the hydration effect have been made and
  the state that it has set has been rendered. A saving effect that runs with \<^verbatim>\<open>isReady\<close>
  false writes nothing. Mounting reads the expenses, reads the budget, renders the loaded
  state, and only then writes, and what it writes is the loaded state; when the render of
  the loaded state raises, nothing is written.
\<close>

theorem load_before_first_save:
  "load_first False False False (ops (run ev (start ev st) es))
   \<and> (\<not> isReady s \<longrightarrow> save_expenses_effect ev s w = w \<and> save_budget_effect ev s w = w)
   \<and> ops (mount ev (start ev st)) =
       (if window_defined ev
        then [GetItem_expenses, GetItem_budget] @
             (if render_raises ev (hydrated ev st) then []
              else [Hydration_applied,
                    SetItem_expenses (JSON_stringify (expenses (hydrated ev st))),
                    SetItem_budget (String (budget (hydrated ev st)))])
        else [])"
proof -
  have "ordered (start ev st)"
    by (simp add: ordered_def start_def initial_state_def)
  then have "ordered (run ev (start ev st) es)" by (rule run_ordered)
  then have "load_first False False False (ops (run ev (start ev st) es))"
    by (simp add: ordered_def)
  then show ?thesis using saving_waits [of s ev w] mount_ops [of ev st] by blast
qed

theorem load_before_first_save_witness:
  "\<not> isReady (initial_state env_june)
   \<and> window_defined env_june
   \<and> \<not> render_raises env_june (hydrated env_june store_rent)
   \<and> expenses (hydrated env_june store_rent) = [rent]
   \<and> budget (hydrated env_june store_rent) = Fin 1800
   \<and> ops (run env_june (start env_june store_rent)
            [Delete (Id (str ''zz'')), Mount, Delete (Id (str ''a1''))]) =
       [GetItem_expenses, GetItem_budget, Hydration_applied,
        SetItem_expenses (JSON_stringify [rent]), SetItem_budget (String (Fin 1800)),
        SetItem_expenses (JSON_stringify [])]
   \<and> load_first False False False
        (ops (run env_june (start env_june store_rent)
               [Delete (Id (str ''zz'')), Mount, Delete (Id (str ''a1''))]))"
  using load_before_first_save [of env_june store_rent
      "[Delete (Id (str ''zz'')), Mount, Delete (Id (str ''a1''))]" "initial_state env_june"
      "start env_june store_rent"]
  by (simp add: run_simps hydrated_def env_june_def rent_def store_rent_def)


section \<open>Budget utilization\<close>

lemma to_double_half_neg: "to_double (- (1 / 2)) = Fin (- (1 / 2))"
  by (rule to_double_normal [where e = "- 1"]) (simp_all add: pow2_def round_ties_even_def)

lemma to_double_quarter: "to_double (1 / 4) = Fin (1 / 4)"
  by (rule to_double_normal [where e = "- 2"]) (simp_all add: pow2_def round_ties_even_def)

lemma jle_zero_iff: "jle (Fin 0) x \<longleftrightarrow> x = PInf \<or> (\<exists>r. 0 \<le> r \<and> x = Fin r)"
  by (cases x) auto

lemma jdiv_nonneg:
  assumes "jle (Fin 0) t" and "jle (Fin 0) b" and "b \<noteq> Fin 0" and "\<not> (b = PInf \<and> t = PInf)"
  shows "jle (Fin 0) (jdiv t b)"
proof (cases b)
  case (Fin bv)
  with assms have bv: "0 < bv" by simp
  show ?thesis
  proof (cases t)
    case (Fin tv)
    with assms have "0 \<le> tv / bv" using bv by simp
    from to_double_nonneg [OF this] show ?thesis
      using Fin \<open>b = Fin bv\<close> bv by (auto simp: jdiv_def jle_zero_iff)
  qed (use assms Fin bv in \<open>auto simp: jdiv_def inf_of_sign_def jsign_def\<close>)
next
  case PInf
  with assms show ?thesis by (cases t) (auto simp: jdiv_def)
qed (use assms in auto)

lemma jmul_100_nonneg:
  assumes "jle (Fin 0) x"
  shows "jle (Fin 0) (jmul x (Fin 100))"
proof (cases x)
  case (Fin r)
  with assms have "0 \<le> r * 100" by simp
  from to_double_nonneg [OF this] show ?thesis
    using Fin by (auto simp: jmul_def jle_zero_iff)
qed (use assms in \<open>auto simp: jmul_def inf_of_sign_def jsign_def\<close>)

lemma min_100_in_range: "jle (Fin 0) x \<Longrightarrow> in_percent_range (Math_min x (Fin 100))"
  by (cases x) (auto simp: Math_min_def in_percent_range_def)

text \<open>
  C4, amended. \<^verbatim>\<open>budgetUtilization\<close> is \<open>0\<close> when the budget is \<open>0\<close> and
  \<^verbatim>\<open>Math.min((totalSpent / budget) * 100, 100)\<close> otherwise; it lies between \<open>0\<close> and \<open>100\<close>
  whenever the budget and the total spent are both at least \<open>0\<close> and not both infinite.
\<close>

theorem budget_utilization_range:
  "budgetUtilization b spent =
     (if b = Fin 0 then Fin 0 else Math_min (jmul (jdiv spent b) (Fin 100)) (Fin 100))
   \<and> (jle (Fin 0) b \<and> jle (Fin 0) spent \<and> \<not> (b = PInf \<and> spent = PInf)
       \<longrightarrow> in_percent_range (budgetUtilization b spent))"
proof (intro conjI impI)
  show "budgetUtilization b spent =
     (if b = Fin 0 then Fin 0 else Math_min (jmul (jdiv spent b) (Fin 100)) (Fin 100))"
    by (simp add: budgetUtilization_def)
next
  assume a: "jle (Fin 0) b \<and> jle (Fin 0) spent \<and> \<not> (b = PInf \<and> spent = PInf)"
  show "in_percent_range (budgetUtilization b spent)"
  proof (cases "b = Fin 0")
    case True
    then show ?thesis by (simp add: budgetUtilization_def in_percent_range_def)
  next
    case False
    from a False have "jle (Fin 0) (jdiv spent b)" by (intro jdiv_nonneg) auto
    then have "jle (Fin 0) (jmul (jdiv spent b) (Fin 100))" by (rule jmul_100_nonneg)
    then show ?thesis using False by (simp add: budgetUtilization_def min_100_in_range)
  qed
qed

theorem budget_utilization_range_witness:
  "jle (Fin 0) (Fin 2000) \<and> jle (Fin 0) (Fin 500)
   \<and> budgetUtilization (Fin 2000) (Fin 500) = Fin 25
   \<and> in_percent_range (budgetUtilization (Fin 2000) (Fin 500))"
  using budget_utilization_range [of "Fin 2000" "Fin 500"]
  by (simp add: jdiv_def jmul_def Math_min_def to_double_quarter in_percent_range_def)

text \<open>
  C4, as the claim states it, fails: hydration takes the stored budget text \<^verbatim>\<open>"-100"\<close> as
  it is, and with 50 spent in the selected month the utilization is \<open>-50\<close>.
\<close>

theorem budget_utilization_counterexample:
  "budget (mounted env_june store_negative_budget) = Fin (- 100)
   \<and> filteredExpenses (expenses (mounted env_june store_negative_budget))
        (selectedMonth (mounted env_june store_negative_budget)) = Inr [snack]
   \<and> totalSpent [snack] = Fin 50
   \<and> budgetUtilization (Fin (- 100)) (Fin 50) = Fin (- 50)
   \<and> \<not> jle (Fin 0) (Fin (- 50))"
  by (simp add: mounted_def run_simps example_defs
      totalSpent_def budgetUtilization_def jdiv_def jmul_def Math_min_def to_double_half_neg)


section \<open>Projected spending\<close>










section \<open>Category totals\<close>

































section \<open>The invariant of the collection\<close>


lemma mount_expenses: "expenses (app_state (mount ev w)) = expenses (hydrated ev (storage w))"
  by (simp only: mount_unfold rerender_fields)






lemma own_records_nil [simp]: "own_records ev n []"
  by (simp add: own_records_def issued_def unique_ids_def text_dates_def)














text \<open>
  The amount text \<^verbatim>\<open>"0.0009765625"\<close> passes the test for a positive amount, which comes
  before the rounding, and is stored as \<open>0\<close>.
\<close>

lemma add_tiny_amount_stores_zero:
  "jlt (Fin 0) (Number (amount_input form_tiny))
   \<and> map amount (expenses (handleSubmit (sample_uuid 0) form_tiny)) = [Fin 0, Fin 1500]"
proof -
  have 1: "trim (description_input form_tiny) \<noteq> []"
    by (simp add: form_tiny_def form_june_def trim_def is_space_def str_def)
  have 2: "jlt (Fin 0) (Number (amount_input form_tiny))"
    by (simp add: form_tiny_def form_june_def Number_def jlt_def)
  have 3: "Number_toFixed2 (Fin (1 / 1024)) = Fin 0"
    by (simp add: Number_toFixed2_def)
  show ?thesis
    using handleSubmit_valid [OF 1 2, of "sample_uuid 0"] 2 3
    by (simp add: form_tiny_def form_june_def rent_def Number_def)
qed

end
